theory Spec2Isabelle
  imports Main "HOL-Library.Char_ord" "HOL-Library.List_Lexorder"
begin

section \<open>Portfolio content updater: the model of update\_portfolio.py\<close>

text \<open>
  The script scans an art directory, renders two fragments of markup and splices each
  between two comment markers of a page. The model follows the script function by
  function.

  Text is a \<open>string\<close>: the list of the bytes of the UTF-8 text. Searching, slicing,
  replacing an ASCII character and comparing act on the bytes as they act on the
  characters. Changing the case of letters does not: it is done on the code points, with
  the case data of Unicode, which the model takes as a parameter (\<open>case_data\<close>). A path
  is the list of its components, as pathlib keeps it. The platform is POSIX (\<open>os.sep\<close> is
  the slash, a written newline stays a newline).

  The world of the script has two parts that the configuration keeps apart: the art
  directory (\<open>art\<close>) and the pages (\<open>pages/...\<close>). The art directory is a tree whose
  children are listed in the order the operating system enumerates them; the pages are
  a store from path to the text of the document, as text-mode reading returns it and
  text-mode writing stores it. A root that exists is a directory and a page that exists
  is a regular file of valid UTF-8. The bytes of a page on disk differ from its text where
  the page has carriage returns, which text-mode reading turns into newlines:
  \<open>update_file_on_disk\<close> is the splicer on the bytes of the files.
\<close>

subsection \<open>Strings\<close>

type_synonym path = "string list"

text \<open>\<open>s.startswith(sub)\<close>\<close>

definition startswith :: "string \<Rightarrow> string \<Rightarrow> bool" where
  "startswith s sub = (take (length sub) s = sub)"

text \<open>\<open>s.find(sub)\<close>: the index of the first occurrence, \<open>-1\<close> when there is none.\<close>

fun str_find :: "string \<Rightarrow> string \<Rightarrow> int" where
  "str_find [] sub = (if sub = [] then 0 else - 1)"
| "str_find (c # cs) sub =
     (if startswith (c # cs) sub then 0
      else (let r = str_find cs sub in if r < 0 then - 1 else r + 1))"

text \<open>\<open>sub in s\<close>\<close>

fun str_in :: "string \<Rightarrow> string \<Rightarrow> bool" where
  "str_in sub [] = (sub = [])"
| "str_in sub (c # cs) = (startswith (c # cs) sub \<or> str_in sub cs)"

text \<open>The slices \<open>s[:i]\<close> and \<open>s[i:]\<close>; a negative index counts from the end.\<close>

definition slice_to :: "string \<Rightarrow> int \<Rightarrow> string" where
  "slice_to s i = (if 0 \<le> i then take (nat i) s else take (length s - nat (- i)) s)"

definition slice_from :: "string \<Rightarrow> int \<Rightarrow> string" where
  "slice_from s i = (if 0 \<le> i then drop (nat i) s else drop (length s - nat (- i)) s)"

text \<open>\<open>sep.join(xs)\<close>\<close>

fun join :: "string \<Rightarrow> string list \<Rightarrow> string" where
  "join sep [] = []"
| "join sep [x] = x"
| "join sep (x # y # ys) = x @ sep @ join sep (y # ys)"

text \<open>\<open>s.replace(a, b)\<close> for single characters \<open>a\<close> and \<open>b\<close>.\<close>

definition replace :: "string \<Rightarrow> char \<Rightarrow> char \<Rightarrow> string" where
  "replace s a b = map (\<lambda>c. if c = a then b else c) s"

text \<open>\<open>s.split(sep)\<close> for a single character \<open>sep\<close>.\<close>

fun str_split :: "string \<Rightarrow> char \<Rightarrow> string list" where
  "str_split [] sep = [[]]"
| "str_split (c # cs) sep =
     (if c = sep then [] # str_split cs sep
      else (case str_split cs sep of
              w # ws \<Rightarrow> (c # w) # ws
            | [] \<Rightarrow> [[c]]))"

text \<open>\<open>s.rfind(c)\<close>: the index of the last occurrence of a character, \<open>-1\<close> when there is none.\<close>

fun rfind :: "string \<Rightarrow> char \<Rightarrow> int" where
  "rfind [] c = - 1"
| "rfind (x # xs) c =
     (let r = rfind xs c in if 0 \<le> r then r + 1 else if x = c then 0 else - 1)"

subsection \<open>Letter case\<close>

text \<open>
  \<open>str.lower\<close> and \<open>str.title\<close> work on the code points of a text with the case data
  of Unicode. That data, and the coding between the bytes of a text and its code points,
  are not part of the script; the model takes them as a parameter:
  \<^item> \<open>decode\<close> and \<open>encode\<close>: UTF-8, from bytes to code points and back;
  \<^item> \<open>cased c\<close>: the code point is cased (\<open>_PyUnicode_IsCased\<close>);
  \<^item> \<open>to_title c\<close>: its full titlecase mapping (\<open>_PyUnicode_ToTitleFull\<close>), one to three
    code points;
  \<^item> \<open>lower_at s i\<close>: the full lowercase mapping of the code point at index \<open>i\<close> of \<open>s\<close>
    (\<open>lower_ucs4\<close>; it sees the whole text, since a capital sigma is lowered by its
    context).
\<close>

record case_data =
  decode :: "string \<Rightarrow> nat list"
  encode :: "nat list \<Rightarrow> string"
  cased :: "nat \<Rightarrow> bool"
  to_title :: "nat \<Rightarrow> nat list"
  lower_at :: "nat list \<Rightarrow> nat \<Rightarrow> nat list"

text \<open>
  \<open>s.lower()\<close> (\<open>do_lower\<close>): the loop over the code points \<open>cs\<close> that remain, \<open>i\<close> being
  the index of the first of them in \<open>s\<close>.
\<close>

fun lower_loop :: "case_data \<Rightarrow> nat list \<Rightarrow> nat list \<Rightarrow> nat \<Rightarrow> nat list" where
  "lower_loop u s [] i = []"
| "lower_loop u s (c # cs) i = lower_at u s i @ lower_loop u s cs (Suc i)"

definition lower :: "case_data \<Rightarrow> string \<Rightarrow> string" where
  "lower u s = encode u (lower_loop u (decode u s) (decode u s) 0)"

text \<open>
  \<open>s.title()\<close> (\<open>do_title\<close>): a code point that follows a cased code point is lowercased,
  any other code point is titlecased.
\<close>

fun title_loop :: "case_data \<Rightarrow> nat list \<Rightarrow> nat list \<Rightarrow> nat \<Rightarrow> bool \<Rightarrow> nat list" where
  "title_loop u s [] i previous_is_cased = []"
| "title_loop u s (c # cs) i previous_is_cased =
     (if previous_is_cased then lower_at u s i else to_title u c) @
     title_loop u s cs (Suc i) (cased u c)"

definition title :: "case_data \<Rightarrow> string \<Rightarrow> string" where
  "title u s = encode u (title_loop u (decode u s) (decode u s) 0 False)"

text \<open>
  The case data of Unicode on ASCII text: a byte is its code point, the letters \<open>A\<close> to
  \<open>Z\<close> and \<open>a\<close> to \<open>z\<close> are cased and map to each other, every other code point is
  taken as uncased. The examples, whose names are ASCII, are evaluated with it.
\<close>

definition ascii_case :: case_data where
  "ascii_case =
     \<lparr>decode = map of_char,
      encode = map char_of,
      cased = (\<lambda>c. (65 \<le> c \<and> c \<le> 90) \<or> (97 \<le> c \<and> c \<le> 122)),
      to_title = (\<lambda>c. if 97 \<le> c \<and> c \<le> 122 then [c - 32] else [c]),
      lower_at = (\<lambda>s i. if 65 \<le> s ! i \<and> s ! i \<le> 90 then [s ! i + 32] else [s ! i])\<rparr>"

subsection \<open>Paths\<close>

text \<open>
  \<open>Path(s)\<close> for a relative path string: its components, without the empty ones and
  the dots. Paths that locate something (the working directory, the script's directory,
  the files of the tree) are absolute: the list of the components below the root.
\<close>

definition Path :: "string \<Rightarrow> path" where
  "Path s = filter (\<lambda>c. c \<noteq> [] \<and> c \<noteq> ''.'') (str_split s (CHR ''/''))"

definition parent :: "path \<Rightarrow> path" where
  "parent p = butlast p"

definition name :: "path \<Rightarrow> string" where
  "name p = (if p = [] then [] else last p)"

text \<open>\<open>PurePath.suffix\<close> and \<open>PurePath.stem\<close> (Python 3.8 to 3.13).\<close>

definition suffix :: "path \<Rightarrow> string" where
  "suffix p =
     (let i = rfind (name p) (CHR ''.'')
      in if 0 < i \<and> i < int (length (name p)) - 1 then slice_from (name p) i else [])"

definition stem :: "path \<Rightarrow> string" where
  "stem p =
     (let i = rfind (name p) (CHR ''.'')
      in if 0 < i \<and> i < int (length (name p)) - 1 then slice_to (name p) i else name p)"

definition os_sep :: char where
  "os_sep = CHR ''/''"

text \<open>\<open>os.path.commonprefix\<close> of two lists of components.\<close>

fun commonprefix :: "'a list \<Rightarrow> 'a list \<Rightarrow> 'a list" where
  "commonprefix (x # xs) (y # ys) = (if x = y then x # commonprefix xs ys else [])"
| "commonprefix xs ys = []"

text \<open>
  \<open>os.path.abspath\<close> of a relative path (with no \<open>..\<close>) is the working directory
  followed by it. \<open>os.path.relpath(path, start)\<close> for an absolute \<open>path\<close> and a relative
  \<open>start\<close> (posixpath): both are made absolute, the shared components are dropped and
  one \<open>..\<close> stands for each component left of \<open>start\<close>.
\<close>

definition abspath :: "path \<Rightarrow> path \<Rightarrow> path" where
  "abspath cwd p = cwd @ p"

definition relpath :: "path \<Rightarrow> path \<Rightarrow> path \<Rightarrow> string" where
  "relpath cwd file_path start =
     (let start_list = abspath cwd start;
          path_list = file_path;
          i = length (commonprefix start_list path_list);
          rel_list = replicate (length start_list - i) ''..'' @ drop i path_list
      in if rel_list = [] then ''.'' else join ''/'' rel_list)"

subsection \<open>Console output\<close>

text \<open>
  One constructor for each \<open>print\<close> of the script (its lines in the source are given);
  the values printed are the constructor's arguments.
\<close>

datatype msg =
    ArtFolderMissing path          \<comment> \<open>lines 35 and 61\<close>
  | FileMissing path               \<comment> \<open>line 143\<close>
  | MarkersMissing path string string  \<comment> \<open>lines 152 to 155\<close>
  | Banner                         \<comment> \<open>lines 177 and 178\<close>
  | Scanning path                  \<comment> \<open>line 186\<close>
  | UpdatingGallery                \<comment> \<open>line 189\<close>
  | NoImages                       \<comment> \<open>line 193\<close>
  | FoundImages nat                \<comment> \<open>line 195\<close>
  | GeneratingGallery              \<comment> \<open>line 196\<close>
  | Updating path                  \<comment> \<open>lines 199 and 220\<close>
  | GalleryUpdated nat             \<comment> \<open>line 201\<close>
  | GalleryFailed                  \<comment> \<open>line 203\<close>
  | UpdatingCollections            \<comment> \<open>line 206\<close>
  | NoCollections                  \<comment> \<open>line 210\<close>
  | FoundCollections nat nat       \<comment> \<open>line 213\<close>
  | CollectionCount string nat     \<comment> \<open>line 215\<close>
  | GeneratingCollections          \<comment> \<open>line 217\<close>
  | CollectionsUpdated nat         \<comment> \<open>line 222\<close>
  | CollectionsFailed              \<comment> \<open>line 224\<close>
  | Complete                       \<comment> \<open>lines 226 and 227\<close>

subsection \<open>Configuration\<close>

definition ART_FOLDER :: string where
  "ART_FOLDER = ''art''"

definition GALLERY_HTML :: string where
  "GALLERY_HTML = ''pages/gallery.html''"

definition COLLECTIONS_HTML :: string where
  "COLLECTIONS_HTML = ''pages/collections.html''"

definition SUPPORTED_EXTENSIONS :: "string list" where
  "SUPPORTED_EXTENSIONS = [''.png'', ''.jpg'', ''.jpeg'', ''.gif'', ''.webp'', ''.svg'']"

definition GALLERY_START :: string where
  "GALLERY_START = ''<!-- GALLERY_IMAGES_START -->''"

definition GALLERY_END :: string where
  "GALLERY_END = ''<!-- GALLERY_IMAGES_END -->''"

definition COLLECTIONS_START :: string where
  "COLLECTIONS_START = ''<!-- COLLECTIONS_START -->''"

definition COLLECTIONS_END :: string where
  "COLLECTIONS_END = ''<!-- COLLECTIONS_END -->''"

subsection \<open>The directory tree\<close>

text \<open>
  A directory lists its children by name, in the order the operating system returns
  them. \<open>rglob\<close> is \<open>p.rglob('*')\<close>: every entry below the directory \<open>p\<close>, files and
  directories, with its full path. \<open>iterdir\<close> is \<open>p.iterdir()\<close>.
\<close>

datatype node = File | Dir "(string \<times> node) list"

fun is_file :: "node \<Rightarrow> bool" where
  "is_file File = True"
| "is_file (Dir kids) = False"

fun is_dir :: "node \<Rightarrow> bool" where
  "is_dir File = False"
| "is_dir (Dir kids) = True"

fun rglob :: "path \<Rightarrow> (string \<times> node) list \<Rightarrow> (path \<times> node) list" where
  "rglob p [] = []"
| "rglob p ((n, File) # ks) = (p @ [n], File) # rglob p ks"
| "rglob p ((n, Dir sub) # ks) = (p @ [n], Dir sub) # rglob (p @ [n]) sub @ rglob p ks"

definition iterdir :: "path \<Rightarrow> (string \<times> node) list \<Rightarrow> (path \<times> node) list" where
  "iterdir p kids = map (\<lambda>(n, c). (p @ [n], c)) kids"

text \<open>
  \<open>sorted\<close> on \<open>Path\<close> objects: pathlib compares two paths by their lists of components
  (\<open>_cparts\<close>, \<open>_parts_normcase\<close>), each component as a string. That is the order of
  \<open>string list\<close> here; the sort is stable.
\<close>

definition sorted_paths :: "(path \<times> node) list \<Rightarrow> (path \<times> node) list" where
  "sorted_paths es = sort_key fst es"

subsection \<open>The path scanner\<close>

type_synonym image = "string \<times> string"

text \<open>The loop of \<open>find_all_images\<close> (lines 38 to 48) over the sorted entries.\<close>

fun find_all_images_loop :: "case_data \<Rightarrow> path \<Rightarrow> (path \<times> node) list \<Rightarrow> image list" where
  "find_all_images_loop u cwd [] = []"
| "find_all_images_loop u cwd ((file_path, nd) # rest) =
     (if is_file nd \<and> lower u (suffix file_path) \<in> set SUPPORTED_EXTENSIONS
      then
        (let relative_path = relpath cwd file_path (parent (Path GALLERY_HTML));
             relative_path = replace relative_path os_sep (CHR ''/'');
             alt_text = title u (replace (replace (stem file_path) (CHR ''_'') (CHR '' ''))
                                 (CHR ''-'') (CHR '' ''))
         in (relative_path, alt_text) # find_all_images_loop u cwd rest)
      else find_all_images_loop u cwd rest)"

text \<open>
  \<open>find_all_images\<close> (lines 27 to 50). \<open>art\<close> is what stands at \<open>art_folder\<close>: nothing,
  or a directory with its children.
\<close>

definition find_all_images ::
  "case_data \<Rightarrow> path \<Rightarrow> path \<Rightarrow> (string \<times> node) list option \<Rightarrow> msg list \<times> image list" where
  "find_all_images u cwd art_folder art =
     (case art of
        None \<Rightarrow> ([ArtFolderMissing art_folder], [])
      | Some kids \<Rightarrow> ([], find_all_images_loop u cwd (sorted_paths (rglob art_folder kids))))"

subsection \<open>The collection grouper\<close>

text \<open>
  A \<open>dict\<close> is the list of its items in insertion order. \<open>dict_append\<close> is
  \<open>collections[k].append(v)\<close> on a \<open>defaultdict(list)\<close>: a key not yet there is added
  at the end with the one value.
\<close>

type_synonym collections = "(string \<times> image list) list"

fun dict_append :: "collections \<Rightarrow> string \<Rightarrow> image \<Rightarrow> collections" where
  "dict_append [] k v = [(k, [v])]"
| "dict_append ((k', vs) # rest) k v =
     (if k' = k then (k', vs @ [v]) # rest else (k', vs) # dict_append rest k v)"

text \<open>The inner loop of \<open>find_collections\<close> (lines 70 to 79).\<close>

fun find_collections_inner ::
  "case_data \<Rightarrow> path \<Rightarrow> string \<Rightarrow> (path \<times> node) list \<Rightarrow> collections \<Rightarrow> collections" where
  "find_collections_inner u cwd collection_name [] collections = collections"
| "find_collections_inner u cwd collection_name ((file_path, nd) # rest) collections =
     (if is_file nd \<and> lower u (suffix file_path) \<in> set SUPPORTED_EXTENSIONS
      then
        (let relative_path = relpath cwd file_path (parent (Path COLLECTIONS_HTML));
             relative_path = replace relative_path os_sep (CHR ''/'');
             alt_text = title u (replace (replace (stem file_path) (CHR ''_'') (CHR '' ''))
                                 (CHR ''-'') (CHR '' ''))
         in find_collections_inner u cwd collection_name rest
              (dict_append collections collection_name (relative_path, alt_text)))
      else find_collections_inner u cwd collection_name rest collections)"

text \<open>The outer loop (lines 65 to 79) over the sorted children of the art folder.\<close>

fun find_collections_outer ::
  "case_data \<Rightarrow> path \<Rightarrow> (path \<times> node) list \<Rightarrow> collections \<Rightarrow> collections" where
  "find_collections_outer u cwd [] collections = collections"
| "find_collections_outer u cwd ((subfolder, File) # rest) collections =
     find_collections_outer u cwd rest collections"
| "find_collections_outer u cwd ((subfolder, Dir kids) # rest) collections =
     find_collections_outer u cwd rest
       (find_collections_inner u cwd (name subfolder) (sorted_paths (rglob subfolder kids))
          collections)"

text \<open>\<open>find_collections\<close> (lines 53 to 81).\<close>

definition find_collections ::
  "case_data \<Rightarrow> path \<Rightarrow> path \<Rightarrow> (string \<times> node) list option \<Rightarrow> msg list \<times> collections" where
  "find_collections u cwd art_folder art =
     (case art of
        None \<Rightarrow> ([ArtFolderMissing art_folder], [])
      | Some kids \<Rightarrow> ([], find_collections_outer u cwd (sorted_paths (iterdir art_folder kids)) []))"

subsection \<open>The markup generator\<close>

text \<open>\<open>generate_gallery_html\<close> (lines 84 to 94).\<close>

definition generate_gallery_html :: "image list \<Rightarrow> string" where
  \<open>generate_gallery_html images =
     join ''\<newline>''
       (map (\<lambda>(img_path, alt_text).
          ''        <div class="gallery-grid-item">\<newline>'' @
          ''            <img src="'' @ img_path @ ''" alt="'' @ alt_text @ ''">\<newline>'' @
          ''        </div>'') images)\<close>

text \<open>
  The bytes the script's source holds between the tags of the two buttons (lines 125
  and 131).
\<close>

definition PREV_GLYPH :: string where
  "PREV_GLYPH = [CHR 0xE2, CHR 0x80, CHR 0x9A, CHR 0xC3, CHR 0x84, CHR 0xCF, CHR 0x80]"

definition NEXT_GLYPH :: string where
  "NEXT_GLYPH = [CHR 0xE2, CHR 0x80, CHR 0x9A, CHR 0xC3, CHR 0x84, CHR 0xE2, CHR 0x88, CHR 0xAB]"

text \<open>The card of one image (lines 111 to 115).\<close>

definition card_html :: "image \<Rightarrow> string" where
  \<open>card_html = (\<lambda>(img_path, alt_text).
     ''                        <div class="collection-card">\<newline>'' @
     ''                            <div class="card-image">\<newline>'' @
     ''                                <img src="'' @ img_path @ ''" alt="'' @ alt_text @ ''">\<newline>'' @
     ''                            </div>\<newline>'' @
     ''                        </div>'')\<close>

text \<open>The section of one collection (lines 119 to 133).\<close>

definition section_html :: "string \<Rightarrow> string \<Rightarrow> string list \<Rightarrow> string" where
  \<open>section_html collection_name display_name cards_html =
     ''        <!-- Collection: '' @ collection_name @ '' -->\<newline>'' @
     ''        <section class="collection-section" data-collection="'' @ collection_name @ ''">\<newline>'' @
     ''            <div class="collection-header">\<newline>'' @
     ''                <h2>'' @ display_name @ ''</h2>\<newline>'' @
     ''            </div>\<newline>'' @
     ''            <div class="collection-carousel-container">\<newline>'' @
     ''                <button class="carousel-btn prev" data-carousel="'' @ collection_name @ ''">'' @
       PREV_GLYPH @ ''</button>\<newline>'' @
     ''                <div class="collection-carousel" id="carousel-'' @ collection_name @ ''">\<newline>'' @
     ''                    <div class="carousel-track">\<newline>'' @
     join ''\<newline>'' cards_html @ ''\<newline>'' @
     ''                    </div>\<newline>'' @
     ''                </div>\<newline>'' @
     ''                <button class="carousel-btn next" data-carousel="'' @ collection_name @ ''">'' @
       NEXT_GLYPH @ ''</button>\<newline>'' @
     ''            </div>\<newline>'' @
     ''        </section>''\<close>

text \<open>The loop of \<open>generate_collections_html\<close> (lines 101 to 135) over the items.\<close>

fun html_sections :: "case_data \<Rightarrow> collections \<Rightarrow> string list" where
  "html_sections u [] = []"
| "html_sections u ((collection_name, images) # rest) =
     (if images = [] then html_sections u rest
      else
        (let display_name =
               title u (replace (replace collection_name (CHR ''_'') (CHR '' ''))
                        (CHR ''-'') (CHR '' ''));
             cards_html = map card_html images
         in section_html collection_name display_name cards_html # html_sections u rest))"

text \<open>\<open>generate_collections_html\<close> (lines 97 to 137).\<close>

definition generate_collections_html :: "case_data \<Rightarrow> collections \<Rightarrow> string" where
  "generate_collections_html u collections = join ''\<newline>'' (html_sections u collections)"

subsection \<open>The marker splicer\<close>

type_synonym store = "path \<rightharpoonup> string"

text \<open>
  \<open>update_file_content\<close> (lines 140 to 172). The result is what was printed, the flag
  returned and the store of documents afterwards.
\<close>

definition update_file_content ::
  "path \<Rightarrow> string \<Rightarrow> string \<Rightarrow> string \<Rightarrow> store \<Rightarrow> msg list \<times> bool \<times> store" where
  "update_file_content file_path new_content start_marker end_marker d =
     (case d file_path of
        None \<Rightarrow> ([FileMissing file_path], False, d)
      | Some content \<Rightarrow>
          if \<not> str_in start_marker content \<or> \<not> str_in end_marker content
          then ([MarkersMissing file_path start_marker end_marker], False, d)
          else
            (let start_idx = str_find content start_marker + int (length start_marker);
                 end_idx = str_find content end_marker;
                 new_file_content =
                   slice_to content start_idx @
                   ''\<newline>'' @ new_content @ ''\<newline>        '' @
                   slice_from content end_idx
             in ([], True, d(file_path \<mapsto> new_file_content))))"

text \<open>
  The script opens the page in text mode (lines 147 and 169, \<open>newline\<close> left at its
  default). Reading turns every \<open>CR LF\<close> and every other \<open>CR\<close> of the file into a
  newline; writing, on POSIX, stores the text as it is.
\<close>

fun universal_newlines :: "string \<Rightarrow> string" where
  "universal_newlines [] = []"
| "universal_newlines [c] = [if c = CHR 0x0D then CHR 0x0A else c]"
| "universal_newlines (c # d # ds) =
     (if c = CHR 0x0D \<and> d = CHR 0x0A then CHR 0x0A # universal_newlines ds
      else if c = CHR 0x0D then CHR 0x0A # universal_newlines (d # ds)
      else c # universal_newlines (d # ds))"

definition read_text :: "string \<Rightarrow> string" where
  "read_text raw = universal_newlines raw"

definition write_text :: "string \<Rightarrow> string" where
  "write_text t = t"

text \<open>
  \<open>update_file_content\<close> on the files themselves: \<open>files\<close> maps a path to the bytes of
  the file. The texts of the files are what \<open>update_file_content\<close> reads; when it
  succeeds, the text it wrote is stored in the file.
\<close>

definition texts :: "store \<Rightarrow> store" where
  "texts files = (\<lambda>p. map_option read_text (files p))"

definition update_file_on_disk ::
  "path \<Rightarrow> string \<Rightarrow> string \<Rightarrow> string \<Rightarrow> store \<Rightarrow> msg list \<times> bool \<times> store" where
  "update_file_on_disk file_path new_content start_marker end_marker files =
     (let (out, ok, d) =
            update_file_content file_path new_content start_marker end_marker (texts files)
      in (out, ok,
          if ok then (case d file_path of
                        Some t \<Rightarrow> files(file_path \<mapsto> write_text t)
                      | None \<Rightarrow> files)
          else files))"

subsection \<open>The orchestrator\<close>

record world =
  art :: "(string \<times> node) list option"
  docs :: store

text \<open>
  \<open>main\<close> (lines 175 to 227), run with the working directory \<open>cwd\<close> from a script that
  lies in \<open>script_dir\<close>, with the case data \<open>u\<close>. Its two blocks, "UPDATE GALLERY" (lines 188 to 203) and
  "UPDATE COLLECTIONS" (lines 205 to 224), are given names; each returns what it printed
  and the store of documents it leaves. \<open>main\<close> returns what was printed and the world
  afterwards.
\<close>

definition update_gallery :: "case_data \<Rightarrow> path \<Rightarrow> path \<Rightarrow> world \<Rightarrow> msg list \<times> store" where
  "update_gallery u cwd script_dir w =
     (let art_folder = script_dir @ Path ART_FOLDER;
          gallery_file = script_dir @ Path GALLERY_HTML;
          (out1, all_images) = find_all_images u cwd art_folder (art w)
      in if all_images = [] then ([UpdatingGallery] @ out1 @ [NoImages], docs w)
         else
           (let gallery_html = generate_gallery_html all_images;
                (out2, ok, d) =
                  update_file_content gallery_file gallery_html
                    GALLERY_START GALLERY_END (docs w)
            in ([UpdatingGallery] @ out1 @
                [FoundImages (length all_images), GeneratingGallery, Updating gallery_file] @
                out2 @
                [if ok then GalleryUpdated (length all_images) else GalleryFailed], d)))"

definition update_collections ::
  "case_data \<Rightarrow> path \<Rightarrow> path \<Rightarrow> world \<Rightarrow> msg list \<times> store" where
  "update_collections u cwd script_dir w =
     (let art_folder = script_dir @ Path ART_FOLDER;
          collections_file = script_dir @ Path COLLECTIONS_HTML;
          (out1, collections) = find_collections u cwd art_folder (art w)
      in if collections = [] then ([UpdatingCollections] @ out1 @ [NoCollections], docs w)
         else
           (let total_collection_images =
                  sum_list (map (\<lambda>(n, images). length images) collections);
                collections_html = generate_collections_html u collections;
                (out2, ok, d) =
                  update_file_content collections_file collections_html
                    COLLECTIONS_START COLLECTIONS_END (docs w)
            in ([UpdatingCollections] @ out1 @
                [FoundCollections (length collections) total_collection_images] @
                map (\<lambda>(n, images). CollectionCount n (length images)) collections @
                [GeneratingCollections, Updating collections_file] @
                out2 @
                [if ok then CollectionsUpdated (length collections) else CollectionsFailed],
                d)))"

definition main :: "case_data \<Rightarrow> path \<Rightarrow> path \<Rightarrow> world \<Rightarrow> msg list \<times> world" where
  "main u cwd script_dir w =
     (let art_folder = script_dir @ Path ART_FOLDER;
          (out1, d1) = update_gallery u cwd script_dir w;
          (out2, d2) = update_collections u cwd script_dir (w\<lparr>docs := d1\<rparr>)
      in ([Banner, Scanning art_folder] @ out1 @ out2 @ [Complete], w\<lparr>docs := d2\<rparr>))"

subsection \<open>The filter of the loops, and the labels in the words of the specification\<close>


text \<open>
  The specification derives a label by replacing underscores and hyphens by spaces and
  capitalizing each word. A word is a maximal run of cased code points (letters). In a
  capitalized word the first code point is titlecased and the others are lowercased;
  what stands between the words is kept. So, at each index of the text: a code point
  that is not cased is kept, a cased one that follows a cased one is lowercased, and any
  other cased one (the first of its word) is titlecased. \<open>spec_label\<close> is the label of
  a file and \<open>display_heading\<close> the heading of a collection in these words.
\<close>

definition capitalize_words :: "case_data \<Rightarrow> nat list \<Rightarrow> nat list" where
  "capitalize_words u s =
     concat (map (\<lambda>i. if cased u (s ! i)
                       then (if 0 < i \<and> cased u (s ! (i - 1)) then lower_at u s i
                             else to_title u (s ! i))
                       else [s ! i])
               [0..<length s])"


definition display_heading :: "case_data \<Rightarrow> string \<Rightarrow> string" where
  "display_heading u collection_name =
     encode u (capitalize_words u (decode u
       (replace (replace collection_name (CHR ''_'') (CHR '' '')) (CHR ''-'') (CHR '' ''))))"

text \<open>
  What the labels need of the case data: a code point that is not cased has no case
  mapping, that is, titlecasing it and lowercasing it (at any place) give the code point
  itself.
\<close>

definition uncased_fixed :: "case_data \<Rightarrow> bool" where
  "uncased_fixed u =
     (\<forall>s i. i < length s \<and> \<not> cased u (s ! i) \<longrightarrow>
        to_title u (s ! i) = [s ! i] \<and> lower_at u s i = [s ! i])"

subsection \<open>The files of a scan\<close>



subsection \<open>Example worlds\<close>

text \<open>
  The tree of the end-to-end scenario (\<open>art/banner.png\<close> and
  \<open>art/landscapes/hill_1.jpg\<close>), a world with no image and two pages that hold the
  markup of an earlier run, and a world whose gallery page lacks its end marker.
\<close>

definition example_tree :: "(string \<times> node) list" where
  "example_tree = [(''landscapes'', Dir [(''hill_1.jpg'', File)]), (''banner.png'', File)]"

definition example_stale :: world where
  "example_stale =
     \<lparr>art = Some [(''notes.txt'', File)],
      docs = [[''site'', ''pages'', ''gallery.html''] \<mapsto>
                ''<!-- GALLERY_IMAGES_START -->stale<!-- GALLERY_IMAGES_END -->'',
              [''site'', ''pages'', ''collections.html''] \<mapsto>
                ''<!-- COLLECTIONS_START -->stale<!-- COLLECTIONS_END -->'']\<rparr>"

definition example_broken_gallery :: world where
  "example_broken_gallery =
     \<lparr>art = Some example_tree,
      docs = [[''site'', ''pages'', ''gallery.html''] \<mapsto> ''<!-- GALLERY_IMAGES_START -->old'',
              [''site'', ''pages'', ''collections.html''] \<mapsto>
                ''<!-- COLLECTIONS_START -->old<!-- COLLECTIONS_END -->'']\<rparr>"

text \<open>A grouping with one collection of one image.\<close>

definition example_collections :: collections where
  "example_collections = [(''my_collection-1'', [(''../art/my_collection-1/a.png'', ''A'')])]"


definition example_one_image :: world where
  "example_one_image =
     \<lparr>art = Some [(''a.png'', File)],
      docs = [[''site'', ''pages'', ''gallery.html''] \<mapsto>
                ''<!-- GALLERY_IMAGES_START --><!-- GALLERY_IMAGES_END -->'']\<rparr>"

text \<open>
  A page with Windows line ends and a final carriage return, \<open>a CR LF <s>old<e>y CR LF z CR\<close>,
  and a gallery page with both of its markers.
\<close>

definition example_crlf_doc :: string where
  "example_crlf_doc =
     ''a'' @ [CHR 0x0D, CHR 0x0A] @ ''<s>old<e>y'' @ [CHR 0x0D, CHR 0x0A] @ ''z'' @ [CHR 0x0D]"


definition example_gallery_doc :: string where
  "example_gallery_doc = ''<!-- GALLERY_IMAGES_START -->old<!-- GALLERY_IMAGES_END -->''"

subsection \<open>Occurrences of a substring\<close>

lemma startswith_Nil [simp]: "startswith s []"
  by (simp add: startswith_def)

lemma startswith_append [simp]: "startswith (sub @ t) sub"
  by (simp add: startswith_def)

lemma startswith_length: "startswith s sub \<Longrightarrow> length sub \<le> length s"
proof -
  assume "startswith s sub"
  then have "take (length sub) s = sub" by (simp add: startswith_def)
  then have "length (take (length sub) s) = length sub" by (rule arg_cong)
  then show ?thesis by simp
qed

lemma startswith_decomp: "startswith s sub \<Longrightarrow> s = sub @ drop (length sub) s"
  unfolding startswith_def by (metis append_take_drop_id)

lemma str_find_ge: "- 1 \<le> str_find s sub"
  by (induction s) (auto simp: Let_def)

lemma str_find_le: "str_find s sub \<le> int (length s)"
  by (induction s) (auto simp: Let_def)

lemma str_in_iff_find: "str_in sub s \<longleftrightarrow> 0 \<le> str_find s sub"
proof (induction s)
  case Nil
  then show ?case by simp
next
  case (Cons c cs)
  have "- 1 \<le> str_find cs sub" by (rule str_find_ge)
  with Cons show ?case by (auto simp: Let_def)
qed

lemma str_find_Cons_int:
  assumes "\<not> startswith (c # cs) sub" and "str_find (c # cs) sub = int i"
  shows "\<exists>j. str_find cs sub = int j \<and> i = Suc j"
proof -
  let ?r = "str_find cs sub"
  from assms have e: "(if ?r < 0 then - 1 else ?r + 1) = int i"
    by (simp add: Let_def)
  have r: "0 \<le> ?r"
  proof (rule ccontr)
    assume "\<not> 0 \<le> ?r"
    with e have "int i = - 1" by simp
    then show False by simp
  qed
  with e have "?r + 1 = int i" by simp
  with r have "?r = int (nat ?r) \<and> i = Suc (nat ?r)" by simp
  then show ?thesis by blast
qed

text \<open>The first occurrence: \<open>sub\<close> stands at the index found and at no index before it.\<close>

lemma str_find_at:
  "str_find s sub = int i \<Longrightarrow> startswith (drop i s) sub"
proof (induction s arbitrary: i)
  case Nil
  then show ?case by (simp split: if_splits)
next
  case (Cons c cs)
  show ?case
  proof (cases "startswith (c # cs) sub")
    case True
    with Cons.prems show ?thesis by simp
  next
    case False
    from str_find_Cons_int [OF False Cons.prems]
    obtain j where j: "str_find cs sub = int j" "i = Suc j" by blast
    from Cons.IH [OF j(1)] j(2) show ?thesis by simp
  qed
qed

lemma str_find_first:
  "str_find s sub = int i \<Longrightarrow> k < i \<Longrightarrow> \<not> startswith (drop k s) sub"
proof (induction s arbitrary: i k)
  case Nil
  then show ?case by (simp split: if_splits)
next
  case (Cons c cs)
  show ?case
  proof (cases "startswith (c # cs) sub")
    case True
    with Cons.prems show ?thesis by simp
  next
    case False
    from str_find_Cons_int [OF False Cons.prems(1)]
    obtain j where j: "str_find cs sub = int j" "i = Suc j" by blast
    show ?thesis
    proof (cases k)
      case 0
      with False show ?thesis by simp
    next
      case (Suc k')
      with Cons.prems(2) j(2) have "k' < j" by simp
      from Cons.IH [OF j(1) this] Suc show ?thesis by simp
    qed
  qed
qed

lemma str_find_bound: "str_find s sub = int i \<Longrightarrow> i + length sub \<le> length s"
proof -
  assume a: "str_find s sub = int i"
  have "int i \<le> int (length s)" using str_find_le [of s sub] a by simp
  moreover have "length sub \<le> length (drop i s)"
    using str_find_at [OF a] by (rule startswith_length)
  ultimately show ?thesis by simp
qed

text \<open>Conversely, an occurrence with none before it is the one found.\<close>

lemma str_find_eqI:
  "startswith (drop i s) sub \<Longrightarrow> i \<le> length s \<Longrightarrow>
   (\<And>k. k < i \<Longrightarrow> \<not> startswith (drop k s) sub) \<Longrightarrow> str_find s sub = int i"
proof (induction s arbitrary: i)
  case Nil
  then show ?case by (simp add: startswith_def)
next
  case (Cons c cs)
  show ?case
  proof (cases i)
    case 0
    with Cons.prems(1) show ?thesis by simp
  next
    case (Suc j)
    have nz: "\<not> startswith (c # cs) sub"
      using Cons.prems(3) [of 0] Suc by simp
    have "str_find cs sub = int j"
    proof (rule Cons.IH)
      show "startswith (drop j cs) sub" using Cons.prems(1) Suc by simp
      show "j \<le> length cs" using Cons.prems(2) Suc by simp
      fix k assume "k < j"
      then have "Suc k < i" using Suc by simp
      from Cons.prems(3) [OF this] show "\<not> startswith (drop k cs) sub" by simp
    qed
    with nz Suc show ?thesis by (simp add: Let_def)
  qed
qed

lemma slice_to_nat [simp]: "slice_to s (int i) = take i s"
  by (simp add: slice_to_def)

lemma slice_from_nat [simp]: "slice_from s (int i) = drop i s"
  by (simp add: slice_from_def)

subsection \<open>What the splicer writes\<close>

lemma take_occurrence: "startswith (drop i c) s \<Longrightarrow> take (i + length s) c = take i c @ s"
  by (simp add: startswith_def take_add)

lemma drop_occurrence: "startswith (drop j c) e \<Longrightarrow> drop j c = e @ drop (j + length e) c"
proof -
  assume "startswith (drop j c) e"
  then have "drop j c = e @ drop (length e) (drop j c)" by (rule startswith_decomp)
  then show ?thesis by (simp add: add.commute)
qed

lemma update_file_content_missing:
  "d fp = None \<Longrightarrow> update_file_content fp new s e d = ([FileMissing fp], False, d)"
  by (simp add: update_file_content_def)

lemma update_file_content_no_markers:
  "d fp = Some content \<Longrightarrow> \<not> str_in s content \<or> \<not> str_in e content \<Longrightarrow>
   update_file_content fp new s e d = ([MarkersMissing fp s e], False, d)"
  by (simp add: update_file_content_def)

lemma update_file_content_found:
  assumes "d fp = Some content" "str_find content s = int i" "str_find content e = int j"
  shows "update_file_content fp new s e d =
    ([], True, d(fp \<mapsto> take (i + length s) content @ ''\<newline>'' @ new @
                         ''\<newline>        '' @ drop j content))"
proof -
  have "str_in s content" "str_in e content"
    using assms by (simp_all add: str_in_iff_find)
  moreover have "int i + int (length s) = int (i + length s)" by simp
  ultimately show ?thesis
    using assms unfolding update_file_content_def Let_def
    by (simp only: option.case if_False simp_thms slice_to_nat slice_from_nat)
qed

lemma str_in_find_nat: "str_in sub s \<Longrightarrow> str_find s sub = int (nat (str_find s sub))"
  by (simp add: str_in_iff_find)

text \<open>
  On the text of the document. Let the text hold both markers, the first occurrence of
  the start marker (at \<open>i\<close>) ending before the first occurrence of the end marker (at
  \<open>j\<close>) begins. Then the text is \<open>before @ start @ middle @ end @ after\<close>, and the
  update succeeds and writes \<open>before @ start\<close>, a newline, the new content, a newline and
  the eight spaces of indentation, and \<open>end @ after\<close>.
\<close>

lemma update_file_content_splice:
  assumes "d fp = Some content"
    and "str_find content s = int i" and "str_find content e = int j"
    and "i + length s \<le> j"
  shows "content = take i content @ s @ take (j - (i + length s)) (drop (i + length s) content)
                   @ e @ drop (j + length e) content
       \<and> update_file_content fp new s e d =
           ([], True, d(fp \<mapsto> take i content @ s @ ''\<newline>'' @ new @
                                ''\<newline>        '' @ e @ drop (j + length e) content))"
proof -
  have p: "take (i + length s) content = take i content @ s"
    using assms(2) by (intro take_occurrence str_find_at)
  have q: "drop j content = e @ drop (j + length e) content"
    using assms(3) by (intro drop_occurrence str_find_at)
  have "content = take (i + length s) content @ drop (i + length s) content" by simp
  also have "drop (i + length s) content =
      take (j - (i + length s)) (drop (i + length s) content) @
      drop (j - (i + length s)) (drop (i + length s) content)"
    by (rule append_take_drop_id [symmetric])
  also have "drop (j - (i + length s)) (drop (i + length s) content) = drop j content"
    using assms(4) by simp
  finally have c: "content = take (i + length s) content @
      take (j - (i + length s)) (drop (i + length s) content) @ drop j content" .
  have u: "update_file_content fp new s e d =
    ([], True, d(fp \<mapsto> take (i + length s) content @ ''\<newline>'' @ new @
                         ''\<newline>        '' @ drop j content))"
    using assms(1-3) by (rule update_file_content_found)
  show ?thesis
  proof
    show "content = take i content @ s @ take (j - (i + length s)) (drop (i + length s) content)
                   @ e @ drop (j + length e) content"
      using c p q by (metis append.assoc)
    show "update_file_content fp new s e d =
           ([], True, d(fp \<mapsto> take i content @ s @ ''\<newline>'' @ new @
                                ''\<newline>        '' @ e @ drop (j + length e) content))"
      using u p q by (metis append.assoc)
  qed
qed

lemma universal_newlines_id: "CHR 0x0D \<notin> set raw \<Longrightarrow> universal_newlines raw = raw"
  by (induction raw rule: universal_newlines.induct) auto

lemma universal_newlines_no_CR: "CHR 0x0D \<notin> set (universal_newlines raw)"
  by (induction raw rule: universal_newlines.induct) auto

lemma update_file_on_disk_written:
  assumes "files fp = Some raw"
    and "update_file_content fp new s e (texts files) = (out, True, (texts files)(fp \<mapsto> t))"
  shows "update_file_on_disk fp new s e files = (out, True, files(fp \<mapsto> t))"
  using assms by (simp add: update_file_on_disk_def write_text_def)

text \<open>
  Claim C1, as the code has it. Let the text of the file as it is read (every \<open>CR LF\<close> and
  every other \<open>CR\<close> turned into a newline) hold both markers, the first occurrence of the
  start marker (at \<open>i\<close>) ending before the first occurrence of the end marker (at \<open>j\<close>)
  begins. Then that text is \<open>before @ start @ middle @ end @ after\<close>, and the update
  succeeds and stores in the file \<open>before @ start\<close>, a newline, the new content, a
  newline and the eight spaces of indentation, and \<open>end @ after\<close>. The text written holds
  no carriage return of the file. When the file has no carriage return, the text read is
  the bytes of the file, so all but the middle is kept byte for byte.
\<close>

theorem update_file_on_disk_splice:
  assumes "files fp = Some raw"
    and "str_find (read_text raw) s = int i" and "str_find (read_text raw) e = int j"
    and "i + length s \<le> j"
  shows "read_text raw =
           take i (read_text raw) @ s @
           take (j - (i + length s)) (drop (i + length s) (read_text raw)) @
           e @ drop (j + length e) (read_text raw)
       \<and> update_file_on_disk fp new s e files =
           ([], True, files(fp \<mapsto> take i (read_text raw) @ s @ ''\<newline>'' @ new @
                                    ''\<newline>        '' @ e @ drop (j + length e) (read_text raw)))
       \<and> CHR 0x0D \<notin> set (read_text raw)
       \<and> (CHR 0x0D \<notin> set raw \<longrightarrow> read_text raw = raw)"
proof -
  have t: "texts files fp = Some (read_text raw)"
    using assms(1) by (simp add: texts_def)
  note sp = update_file_content_splice [of "texts files" fp "read_text raw" s i e j new,
      OF t assms(2-4)]
  from sp have u: "update_file_content fp new s e (texts files) =
      ([], True, (texts files)(fp \<mapsto> take i (read_text raw) @ s @ ''\<newline>'' @ new @
                                    ''\<newline>        '' @ e @ drop (j + length e) (read_text raw)))"
    by (rule conjunct2)
  have w: "update_file_on_disk fp new s e files =
           ([], True, files(fp \<mapsto> take i (read_text raw) @ s @ ''\<newline>'' @ new @
                                    ''\<newline>        '' @ e @ drop (j + length e) (read_text raw)))"
    using assms(1) u by (rule update_file_on_disk_written)
  have n: "CHR 0x0D \<notin> set (read_text raw)"
    by (simp add: read_text_def universal_newlines_no_CR)
  have i: "CHR 0x0D \<notin> set raw \<longrightarrow> read_text raw = raw"
    by (simp add: read_text_def universal_newlines_id)
  from sp [THEN conjunct1] w n i show ?thesis by (intro conjI)
qed

theorem update_file_on_disk_splice_witness:
  "str_find (read_text ''ab<s>old<e>yz'') ''<s>'' = 2 \<and>
   str_find (read_text ''ab<s>old<e>yz'') ''<e>'' = 8 \<and>
   2 + length ''<s>'' \<le> (8::nat) \<and>
   CHR 0x0D \<notin> set ''ab<s>old<e>yz'' \<and>
   update_file_on_disk [''pages'', ''gallery.html''] ''NEW'' ''<s>'' ''<e>''
     [[''pages'', ''gallery.html''] \<mapsto> ''ab<s>old<e>yz''] =
   ([], True, [[''pages'', ''gallery.html''] \<mapsto> ''ab<s>\<newline>NEW\<newline>        <e>yz''])"
proof -
  have r: "read_text ''ab<s>old<e>yz'' = ''ab<s>old<e>yz''" by code_simp
  have f1: "str_find (read_text ''ab<s>old<e>yz'') ''<s>'' = int 2" by code_simp
  have f2: "str_find (read_text ''ab<s>old<e>yz'') ''<e>'' = int 8" by code_simp
  have o: "2 + length ''<s>'' \<le> (8::nat)" by simp
  have c: "CHR 0x0D \<notin> set ''ab<s>old<e>yz''" by simp
  have g: "[[''pages'', ''gallery.html''] \<mapsto> ''ab<s>old<e>yz''] [''pages'', ''gallery.html'']
      = Some ''ab<s>old<e>yz''" by simp
  from update_file_on_disk_splice [of "[[''pages'', ''gallery.html''] \<mapsto> ''ab<s>old<e>yz'']"
        "[''pages'', ''gallery.html'']" "''ab<s>old<e>yz''" "''<s>''" 2 "''<e>''" 8 "''NEW''",
        OF g f1 f2 o]
  have "update_file_on_disk [''pages'', ''gallery.html''] ''NEW'' ''<s>'' ''<e>''
     [[''pages'', ''gallery.html''] \<mapsto> ''ab<s>old<e>yz''] =
     ([], True, [[''pages'', ''gallery.html''] \<mapsto> ''ab<s>\<newline>NEW\<newline>        <e>yz''])"
    by (simp add: r)
  with f1 f2 o c show ?thesis by simp
qed

text \<open>
  With carriage returns the bytes outside the markers are not kept. In the file
  \<open>a CR LF <s>old<e>y CR LF z CR\<close> both markers occur, \<open><s>\<close> at 3 and \<open><e>\<close> at 9. The
  update stores \<open>a LF <s> LF NEW LF ........<e>y LF z LF\<close>: what stands before the start
  marker is \<open>a LF\<close>, not \<open>a CR LF\<close>, and what stands from the end marker on is
  \<open><e>y LF z LF\<close>, not \<open><e>y CR LF z CR\<close>.
\<close>

theorem update_file_on_disk_splice_counterexample:
  "str_find example_crlf_doc ''<s>'' = 3 \<and> str_find example_crlf_doc ''<e>'' = 9 \<and>
   fst (snd (update_file_on_disk [''g.html''] ''NEW'' ''<s>'' ''<e>''
              [[''g.html''] \<mapsto> example_crlf_doc])) \<and>
   snd (snd (update_file_on_disk [''g.html''] ''NEW'' ''<s>'' ''<e>''
              [[''g.html''] \<mapsto> example_crlf_doc])) [''g.html''] =
     Some ''a\<newline><s>\<newline>NEW\<newline>        <e>y\<newline>z\<newline>'' \<and>
   take 3 example_crlf_doc @ ''<s>'' @ ''\<newline>'' @ ''NEW'' @ ''\<newline>        '' @
     drop 9 example_crlf_doc \<noteq> ''a\<newline><s>\<newline>NEW\<newline>        <e>y\<newline>z\<newline>'' \<and>
   take 3 ''a\<newline><s>\<newline>NEW\<newline>        <e>y\<newline>z\<newline>'' \<noteq> take 3 example_crlf_doc \<and>
   drop 9 example_crlf_doc \<noteq> ''<e>y\<newline>z\<newline>''"
  by (intro conjI; code_simp)

text \<open>
  Claim C2. The update returns \<open>False\<close> and leaves the store as it was exactly when the
  document is missing or one of the markers does not occur in its text. In every other
  case, wherever the two markers stand, it returns \<open>True\<close> and rewrites the document.
\<close>

theorem update_file_content_fails_iff:
  "((\<not> fst (snd (update_file_content fp new s e d)) \<and>
      snd (snd (update_file_content fp new s e d)) = d)
     \<longleftrightarrow> (d fp = None \<or> (\<exists>c. d fp = Some c \<and> (\<not> str_in s c \<or> \<not> str_in e c))))
   \<and> (\<forall>c. d fp = Some c \<and> str_in s c \<and> str_in e c \<longrightarrow>
          fst (snd (update_file_content fp new s e d)) \<and>
          snd (snd (update_file_content fp new s e d)) =
            d(fp \<mapsto> take (nat (str_find c s) + length s) c @ ''\<newline>'' @ new @
                       ''\<newline>        '' @ drop (nat (str_find c e)) c))"
proof (cases "d fp")
  case None
  then show ?thesis by (simp add: update_file_content_missing)
next
  case (Some content)
  show ?thesis
  proof (cases "str_in s content \<and> str_in e content")
    case False
    then have "\<not> str_in s content \<or> \<not> str_in e content" by simp
    from update_file_content_no_markers [of d fp content s e new, OF Some this]
    show ?thesis using Some False by auto
  next
    case True
    have "str_find content s = int (nat (str_find content s))"
      and "str_find content e = int (nat (str_find content e))"
      using True by (blast intro: str_in_find_nat)+
    from update_file_content_found [of d fp content s _ e _ new, OF Some this]
    show ?thesis using Some True by simp
  qed
qed

theorem update_file_content_fails_iff_witness:
  "\<not> str_in ''<e>'' ''<s>old'' \<and>
   update_file_content [''g.html''] ''NEW'' ''<s>'' ''<e>'' [[''g.html''] \<mapsto> ''<s>old'']
     = ([MarkersMissing [''g.html''] ''<s>'' ''<e>''], False, [[''g.html''] \<mapsto> ''<s>old'']) \<and>
   str_in ''<s>'' ''<e>mid<s>'' \<and> str_in ''<e>'' ''<e>mid<s>'' \<and>
   fst (snd (update_file_content [''g.html''] ''NEW'' ''<s>'' ''<e>'' [[''g.html''] \<mapsto> ''<e>mid<s>''])) \<and>
   snd (snd (update_file_content [''g.html''] ''NEW'' ''<s>'' ''<e>'' [[''g.html''] \<mapsto> ''<e>mid<s>'']))
     = [[''g.html''] \<mapsto> ''<e>mid<s>\<newline>NEW\<newline>        <e>mid<s>'']"
proof -
  have a: "\<not> str_in ''<e>'' ''<s>old''" by (simp add: startswith_def)
  have b: "str_in ''<s>'' ''<e>mid<s>''" "str_in ''<e>'' ''<e>mid<s>''"
    by (simp_all add: startswith_def)
  have f: "str_find ''<e>mid<s>'' ''<s>'' = 6" "str_find ''<e>mid<s>'' ''<e>'' = 0"
    by (simp_all add: startswith_def)
  have m: "update_file_content [''g.html''] ''NEW'' ''<s>'' ''<e>'' [[''g.html''] \<mapsto> ''<s>old'']
     = ([MarkersMissing [''g.html''] ''<s>'' ''<e>''], False, [[''g.html''] \<mapsto> ''<s>old''])"
    by (simp add: update_file_content_def startswith_def)
  show ?thesis
    using a b f m
      update_file_content_fails_iff [of "[''g.html'']" "''NEW''" "''<s>''" "''<e>''"
        "[[''g.html''] \<mapsto> ''<e>mid<s>'']"]
    by simp
qed

subsection \<open>The orchestrator and its two targets\<close>

lemma Path_constants:
  "Path ART_FOLDER = [''art'']"
  "Path GALLERY_HTML = [''pages'', ''gallery.html'']"
  "Path COLLECTIONS_HTML = [''pages'', ''collections.html'']"
  by (simp_all add: Path_def ART_FOLDER_def GALLERY_HTML_def COLLECTIONS_HTML_def)

lemma targets_differ: "script_dir @ Path GALLERY_HTML \<noteq> script_dir @ Path COLLECTIONS_HTML"
  by (simp add: Path_constants)

lemma update_file_content_frame:
  "fp' \<noteq> fp \<Longrightarrow> snd (snd (update_file_content fp new s e d)) fp' = d fp'"
  by (simp add: update_file_content_def Let_def split: option.splits)

lemma update_file_content_out:
  "set (fst (update_file_content fp new s e d)) \<subseteq> {FileMissing fp, MarkersMissing fp s e}"
  by (simp add: update_file_content_def Let_def split: option.splits)

lemma update_file_content_local:
  "d fp = d' fp \<Longrightarrow>
   fst (update_file_content fp new s e d) = fst (update_file_content fp new s e d') \<and>
   fst (snd (update_file_content fp new s e d)) = fst (snd (update_file_content fp new s e d')) \<and>
   snd (snd (update_file_content fp new s e d)) fp = snd (snd (update_file_content fp new s e d')) fp"
  by (simp add: update_file_content_def Let_def split: option.splits)

lemma update_gallery_frame:
  "fp \<noteq> script_dir @ Path GALLERY_HTML \<Longrightarrow> snd (update_gallery u cwd script_dir w) fp = docs w fp"
  by (simp add: update_gallery_def Let_def update_file_content_frame split: prod.splits)
    (metis update_file_content_frame snd_conv)

lemma update_collections_frame:
  "fp \<noteq> script_dir @ Path COLLECTIONS_HTML \<Longrightarrow>
   snd (update_collections u cwd script_dir w) fp = docs w fp"
  by (simp add: update_collections_def Let_def update_file_content_frame split: prod.splits)
    (metis update_file_content_frame snd_conv)

lemma main_docs:
  "docs (snd (main u cwd script_dir w)) =
   snd (update_collections u cwd script_dir (w\<lparr>docs := snd (update_gallery u cwd script_dir w)\<rparr>))"
  by (simp add: main_def Let_def split: prod.splits)

lemma main_out:
  "fst (main u cwd script_dir w) =
   [Banner, Scanning (script_dir @ Path ART_FOLDER)] @ fst (update_gallery u cwd script_dir w) @
   fst (update_collections u cwd script_dir (w\<lparr>docs := snd (update_gallery u cwd script_dir w)\<rparr>)) @
   [Complete]"
  by (simp add: main_def Let_def split: prod.splits)

lemma main_art: "art (snd (main u cwd script_dir w)) = art w"
  by (simp add: main_def Let_def split: prod.splits)

lemma find_all_images_out:
  "m \<in> set (fst (find_all_images u cwd art_folder a)) \<Longrightarrow> m = ArtFolderMissing art_folder"
  by (simp add: find_all_images_def split: option.splits)

lemma find_collections_out:
  "m \<in> set (fst (find_collections u cwd art_folder a)) \<Longrightarrow> m = ArtFolderMissing art_folder"
  by (simp add: find_collections_def split: option.splits)

lemma update_gallery_empty:
  "snd (find_all_images u cwd (script_dir @ Path ART_FOLDER) (art w)) = [] \<Longrightarrow>
   update_gallery u cwd script_dir w =
     ([UpdatingGallery] @ fst (find_all_images u cwd (script_dir @ Path ART_FOLDER) (art w)) @
      [NoImages], docs w)"
  by (simp add: update_gallery_def Let_def split_beta)

lemma update_collections_empty:
  "snd (find_collections u cwd (script_dir @ Path ART_FOLDER) (art w)) = [] \<Longrightarrow>
   update_collections u cwd script_dir w =
     ([UpdatingCollections] @ fst (find_collections u cwd (script_dir @ Path ART_FOLDER) (art w)) @
      [NoCollections], docs w)"
  by (simp add: update_collections_def Let_def split_beta)

lemma update_file_content_no_Updating:
  "Updating fp' \<notin> set (fst (update_file_content fp new s e d))"
  using update_file_content_out [of fp new s e d] by auto

lemma update_gallery_Updating:
  "Updating fp \<in> set (fst (update_gallery u cwd script_dir w)) \<Longrightarrow>
   fp = script_dir @ Path GALLERY_HTML \<and>
   snd (find_all_images u cwd (script_dir @ Path ART_FOLDER) (art w)) \<noteq> []"
proof -
  assume a: "Updating fp \<in> set (fst (update_gallery u cwd script_dir w))"
  obtain out1 imgs where f: "find_all_images u cwd (script_dir @ Path ART_FOLDER) (art w) = (out1, imgs)"
    by (cases "find_all_images u cwd (script_dir @ Path ART_FOLDER) (art w)")
  have o: "Updating fp \<notin> set out1"
    using find_all_images_out [of "Updating fp" u cwd "script_dir @ Path ART_FOLDER" "art w"] f
    by auto
  obtain out2 ok d where u: "update_file_content (script_dir @ Path GALLERY_HTML)
      (generate_gallery_html imgs) GALLERY_START GALLERY_END (docs w) = (out2, ok, d)"
    by (cases "update_file_content (script_dir @ Path GALLERY_HTML)
      (generate_gallery_html imgs) GALLERY_START GALLERY_END (docs w)")
  have o2: "Updating fp \<notin> set out2"
    using update_file_content_no_Updating [of fp "script_dir @ Path GALLERY_HTML"
        "generate_gallery_html imgs" GALLERY_START GALLERY_END "docs w"] u by simp
  show ?thesis
    using a f u o o2 by (auto simp: update_gallery_def Let_def split: if_splits)
qed

lemma update_collections_Updating:
  "Updating fp \<in> set (fst (update_collections u cwd script_dir w)) \<Longrightarrow>
   fp = script_dir @ Path COLLECTIONS_HTML \<and>
   snd (find_collections u cwd (script_dir @ Path ART_FOLDER) (art w)) \<noteq> []"
proof -
  assume a: "Updating fp \<in> set (fst (update_collections u cwd script_dir w))"
  obtain out1 cs where f: "find_collections u cwd (script_dir @ Path ART_FOLDER) (art w) = (out1, cs)"
    by (cases "find_collections u cwd (script_dir @ Path ART_FOLDER) (art w)")
  have o: "Updating fp \<notin> set out1"
    using find_collections_out [of "Updating fp" u cwd "script_dir @ Path ART_FOLDER" "art w"] f
    by auto
  obtain out2 ok d where u: "update_file_content (script_dir @ Path COLLECTIONS_HTML)
      (generate_collections_html u cs) COLLECTIONS_START COLLECTIONS_END (docs w) = (out2, ok, d)"
    by (cases "update_file_content (script_dir @ Path COLLECTIONS_HTML)
      (generate_collections_html u cs) COLLECTIONS_START COLLECTIONS_END (docs w)")
  have o2: "Updating fp \<notin> set out2"
    using update_file_content_no_Updating [of fp "script_dir @ Path COLLECTIONS_HTML"
        "generate_collections_html u cs" COLLECTIONS_START COLLECTIONS_END "docs w"] u by simp
  show ?thesis
    using a f u o o2 by (auto simp: update_collections_def Let_def split: if_splits)
qed

lemma main_Updating:
  "Updating fp \<in> set (fst (main u cwd script_dir w)) \<Longrightarrow>
   (fp = script_dir @ Path GALLERY_HTML \<and>
    snd (find_all_images u cwd (script_dir @ Path ART_FOLDER) (art w)) \<noteq> []) \<or>
   (fp = script_dir @ Path COLLECTIONS_HTML \<and>
    snd (find_collections u cwd (script_dir @ Path ART_FOLDER) (art w)) \<noteq> [])"
proof -
  assume "Updating fp \<in> set (fst (main u cwd script_dir w))"
  then have "Updating fp \<in> set (fst (update_gallery u cwd script_dir w)) \<or>
    Updating fp \<in> set (fst (update_collections u cwd script_dir
       (w\<lparr>docs := snd (update_gallery u cwd script_dir w)\<rparr>)))"
    by (simp add: main_out)
  then show ?thesis
  proof
    assume "Updating fp \<in> set (fst (update_gallery u cwd script_dir w))"
    then show ?thesis by (blast dest: update_gallery_Updating)
  next
    assume "Updating fp \<in> set (fst (update_collections u cwd script_dir
       (w\<lparr>docs := snd (update_gallery u cwd script_dir w)\<rparr>)))"
    from update_collections_Updating [OF this] show ?thesis by simp
  qed
qed

lemma main_gallery_doc:
  "docs (snd (main u cwd script_dir w)) (script_dir @ Path GALLERY_HTML) =
   snd (update_gallery u cwd script_dir w) (script_dir @ Path GALLERY_HTML)"
  by (simp add: main_docs update_collections_frame Path_constants)

lemma update_collections_local:
  assumes "d (script_dir @ Path COLLECTIONS_HTML) = docs w (script_dir @ Path COLLECTIONS_HTML)"
  shows "fst (update_collections u cwd script_dir (w\<lparr>docs := d\<rparr>)) = fst (update_collections u cwd script_dir w)
    \<and> snd (update_collections u cwd script_dir (w\<lparr>docs := d\<rparr>)) (script_dir @ Path COLLECTIONS_HTML)
      = snd (update_collections u cwd script_dir w) (script_dir @ Path COLLECTIONS_HTML)"
proof -
  obtain out1 cs where f: "find_collections u cwd (script_dir @ Path ART_FOLDER) (art w) = (out1, cs)"
    by (cases "find_collections u cwd (script_dir @ Path ART_FOLDER) (art w)")
  note l = update_file_content_local [of d "script_dir @ Path COLLECTIONS_HTML" "docs w"
      "generate_collections_html u cs" COLLECTIONS_START COLLECTIONS_END, OF assms]
  show ?thesis
    using f l assms
    by (simp add: update_collections_def Let_def split_beta)
qed

lemma main_collections_doc:
  "docs (snd (main u cwd script_dir w)) (script_dir @ Path COLLECTIONS_HTML) =
   snd (update_collections u cwd script_dir w) (script_dir @ Path COLLECTIONS_HTML)"
proof -
  have "snd (update_gallery u cwd script_dir w) (script_dir @ Path COLLECTIONS_HTML)
      = docs w (script_dir @ Path COLLECTIONS_HTML)"
    using targets_differ [of script_dir] by (intro update_gallery_frame) simp
  from update_collections_local [where script_dir = script_dir and w = w
      and d = "snd (update_gallery u cwd script_dir w)" and cwd = cwd and u = u, OF this]
  show ?thesis by (simp add: main_docs)
qed

lemma main_out_split:
  "fst (main u cwd script_dir w) =
   [Banner, Scanning (script_dir @ Path ART_FOLDER)] @ fst (update_gallery u cwd script_dir w) @
   fst (update_collections u cwd script_dir w) @ [Complete]"
proof -
  have "snd (update_gallery u cwd script_dir w) (script_dir @ Path COLLECTIONS_HTML)
      = docs w (script_dir @ Path COLLECTIONS_HTML)"
    using targets_differ [of script_dir] by (intro update_gallery_frame) simp
  from update_collections_local [where script_dir = script_dir and w = w
      and d = "snd (update_gallery u cwd script_dir w)" and cwd = cwd and u = u, OF this]
  show ?thesis by (simp add: main_out)
qed

text \<open>
  Claim C9. When the art folder does not exist, the scanner and the grouper each print
  the diagnostic and return an empty result, and \<open>main\<close> runs to its last line: it
  reports no images and no collections and leaves the world as it was.
\<close>

theorem missing_root_is_not_fatal:
  "find_all_images u cwd art_folder None = ([ArtFolderMissing art_folder], []) \<and>
   find_collections u cwd art_folder None = ([ArtFolderMissing art_folder], []) \<and>
   main u cwd script_dir \<lparr>art = None, docs = d\<rparr> =
     ([Banner, Scanning (script_dir @ [''art'']),
       UpdatingGallery, ArtFolderMissing (script_dir @ [''art'']), NoImages,
       UpdatingCollections, ArtFolderMissing (script_dir @ [''art'']), NoCollections,
       Complete],
      \<lparr>art = None, docs = d\<rparr>)"
  by (simp add: find_all_images_def find_collections_def main_def update_gallery_def
      update_collections_def Path_constants)

theorem missing_root_is_not_fatal_witness:
  "main ascii_case [''home''] [''site'']
     \<lparr>art = None, docs = [[''site'', ''pages'', ''gallery.html''] \<mapsto> ''<html>'']\<rparr> =
     ([Banner, Scanning [''site'', ''art''],
       UpdatingGallery, ArtFolderMissing [''site'', ''art''], NoImages,
       UpdatingCollections, ArtFolderMissing [''site'', ''art''], NoCollections,
       Complete],
      \<lparr>art = None, docs = [[''site'', ''pages'', ''gallery.html''] \<mapsto> ''<html>'']\<rparr>)"
  using missing_root_is_not_fatal [of ascii_case "[''home'']" "[''site'', ''art'']" "[''site'']"
      "[[''site'', ''pages'', ''gallery.html''] \<mapsto> ''<html>'']"]
  by simp

text \<open>
  Claim C10. When the scan finds no image, \<open>main\<close> never reaches the update of the
  gallery page (it prints no "Updating" line for it) and the page is left as it was,
  whatever markup it holds; likewise for the collections page when no collection is
  found.
\<close>

theorem empty_scan_leaves_document:
  "(snd (find_all_images u cwd (script_dir @ Path ART_FOLDER) (art w)) = [] \<longrightarrow>
      Updating (script_dir @ Path GALLERY_HTML) \<notin> set (fst (main u cwd script_dir w)) \<and>
      docs (snd (main u cwd script_dir w)) (script_dir @ Path GALLERY_HTML) =
        docs w (script_dir @ Path GALLERY_HTML))
   \<and> (snd (find_collections u cwd (script_dir @ Path ART_FOLDER) (art w)) = [] \<longrightarrow>
      Updating (script_dir @ Path COLLECTIONS_HTML) \<notin> set (fst (main u cwd script_dir w)) \<and>
      docs (snd (main u cwd script_dir w)) (script_dir @ Path COLLECTIONS_HTML) =
        docs w (script_dir @ Path COLLECTIONS_HTML))"
proof (intro conjI impI)
  assume e: "snd (find_all_images u cwd (script_dir @ Path ART_FOLDER) (art w)) = []"
  show "Updating (script_dir @ Path GALLERY_HTML) \<notin> set (fst (main u cwd script_dir w))"
    using main_Updating [of "script_dir @ Path GALLERY_HTML" u cwd script_dir w] e
      targets_differ [of script_dir] by auto
  show "docs (snd (main u cwd script_dir w)) (script_dir @ Path GALLERY_HTML) =
        docs w (script_dir @ Path GALLERY_HTML)"
    by (simp add: main_gallery_doc update_gallery_empty [OF e])
next
  assume e: "snd (find_collections u cwd (script_dir @ Path ART_FOLDER) (art w)) = []"
  show "Updating (script_dir @ Path COLLECTIONS_HTML) \<notin> set (fst (main u cwd script_dir w))"
    using main_Updating [of "script_dir @ Path COLLECTIONS_HTML" u cwd script_dir w] e
      targets_differ [of script_dir] by auto
  show "docs (snd (main u cwd script_dir w)) (script_dir @ Path COLLECTIONS_HTML) =
        docs w (script_dir @ Path COLLECTIONS_HTML)"
    by (simp add: main_collections_doc update_collections_empty [OF e])
qed

theorem empty_scan_leaves_document_witness:
  "snd (find_all_images ascii_case [''site''] ([''site''] @ Path ART_FOLDER) (art example_stale)) = [] \<and>
   snd (find_collections ascii_case [''site''] ([''site''] @ Path ART_FOLDER) (art example_stale)) = [] \<and>
   Updating ([''site''] @ Path GALLERY_HTML) \<notin> set (fst (main ascii_case [''site''] [''site''] example_stale)) \<and>
   docs (snd (main ascii_case [''site''] [''site''] example_stale)) ([''site''] @ Path GALLERY_HTML) =
     Some ''<!-- GALLERY_IMAGES_START -->stale<!-- GALLERY_IMAGES_END -->'' \<and>
   Updating ([''site''] @ Path COLLECTIONS_HTML) \<notin> set (fst (main ascii_case [''site''] [''site''] example_stale)) \<and>
   docs (snd (main ascii_case [''site''] [''site''] example_stale)) ([''site''] @ Path COLLECTIONS_HTML) =
     Some ''<!-- COLLECTIONS_START -->stale<!-- COLLECTIONS_END -->''"
proof -
  have h1: "snd (find_all_images ascii_case [''site''] ([''site''] @ Path ART_FOLDER) (art example_stale)) = []"
    by code_simp
  have h2: "snd (find_collections ascii_case [''site''] ([''site''] @ Path ART_FOLDER) (art example_stale)) = []"
    by code_simp
  have d1: "docs example_stale ([''site''] @ Path GALLERY_HTML) =
     Some ''<!-- GALLERY_IMAGES_START -->stale<!-- GALLERY_IMAGES_END -->''"
    by (simp add: example_stale_def Path_constants)
  have d2: "docs example_stale ([''site''] @ Path COLLECTIONS_HTML) =
     Some ''<!-- COLLECTIONS_START -->stale<!-- COLLECTIONS_END -->''"
    by (simp add: example_stale_def Path_constants)
  from empty_scan_leaves_document [of ascii_case "[''site'']" "[''site'']" example_stale] h1 h2 d1 d2
  show ?thesis by metis
qed

text \<open>
  Claim C7. Let the gallery page exist without its end marker while the scan finds
  images, and let the collections page hold both of its markers while collections are
  found. Then the gallery update fails and the gallery page is unchanged, and \<open>main\<close>
  still runs the collections block to the end: the collections update succeeds and
  writes the splice. The same holds with the two targets exchanged. In every case each
  page ends as its own block alone leaves it, and what is printed is the output of the two
  blocks in sequence: no block blocks or alters the other.
\<close>

theorem pipelines_are_independent:
  fixes u :: case_data and cwd script_dir :: path and w :: world
  defines "gallery_file \<equiv> script_dir @ Path GALLERY_HTML"
    and "collections_file \<equiv> script_dir @ Path COLLECTIONS_HTML"
    and "images \<equiv> snd (find_all_images u cwd (script_dir @ Path ART_FOLDER) (art w))"
    and "colls \<equiv> snd (find_collections u cwd (script_dir @ Path ART_FOLDER) (art w))"
    and "out \<equiv> fst (main u cwd script_dir w)"
    and "after \<equiv> docs (snd (main u cwd script_dir w))"
  shows
   "(\<forall>g c. docs w gallery_file = Some g \<and> \<not> str_in GALLERY_END g \<and> images \<noteq> [] \<and>
           docs w collections_file = Some c \<and> str_in COLLECTIONS_START c \<and>
           str_in COLLECTIONS_END c \<and> colls \<noteq> [] \<longrightarrow>
       GalleryFailed \<in> set out \<and> after gallery_file = Some g \<and>
       CollectionsUpdated (length colls) \<in> set out \<and> last out = Complete \<and>
       after collections_file =
         Some (take (nat (str_find c COLLECTIONS_START) + length COLLECTIONS_START) c @
               ''\<newline>'' @ generate_collections_html u colls @ ''\<newline>        '' @
               drop (nat (str_find c COLLECTIONS_END)) c))
    \<and> (\<forall>g c. docs w collections_file = Some c \<and> \<not> str_in COLLECTIONS_END c \<and> colls \<noteq> [] \<and>
           docs w gallery_file = Some g \<and> str_in GALLERY_START g \<and>
           str_in GALLERY_END g \<and> images \<noteq> [] \<longrightarrow>
       CollectionsFailed \<in> set out \<and> after collections_file = Some c \<and>
       GalleryUpdated (length images) \<in> set out \<and> last out = Complete \<and>
       after gallery_file =
         Some (take (nat (str_find g GALLERY_START) + length GALLERY_START) g @
               ''\<newline>'' @ generate_gallery_html images @ ''\<newline>        '' @
               drop (nat (str_find g GALLERY_END)) g))
    \<and> out = [Banner, Scanning (script_dir @ Path ART_FOLDER)] @
             fst (update_gallery u cwd script_dir w) @
             fst (update_collections u cwd script_dir w) @ [Complete]
    \<and> after gallery_file = snd (update_gallery u cwd script_dir w) gallery_file
    \<and> after collections_file = snd (update_collections u cwd script_dir w) collections_file"
proof -
  obtain o1 where f1: "find_all_images u cwd (script_dir @ Path ART_FOLDER) (art w) = (o1, images)"
    unfolding images_def by (cases "find_all_images u cwd (script_dir @ Path ART_FOLDER) (art w)") simp
  obtain o2 where f2: "find_collections u cwd (script_dir @ Path ART_FOLDER) (art w) = (o2, colls)"
    unfolding colls_def by (cases "find_collections u cwd (script_dir @ Path ART_FOLDER) (art w)") simp
  have out: "out = [Banner, Scanning (script_dir @ Path ART_FOLDER)] @
             fst (update_gallery u cwd script_dir w) @
             fst (update_collections u cwd script_dir w) @ [Complete]"
    unfolding out_def by (rule main_out_split)
  have ag: "after gallery_file = snd (update_gallery u cwd script_dir w) gallery_file"
    unfolding after_def gallery_file_def by (rule main_gallery_doc)
  have ac: "after collections_file = snd (update_collections u cwd script_dir w) collections_file"
    unfolding after_def collections_file_def by (rule main_collections_doc)
  have l: "last out = Complete" by (simp add: out)
  \<comment> \<open>the gallery block, failing and succeeding\<close>
  have gf: "GalleryFailed \<in> set (fst (update_gallery u cwd script_dir w)) \<and>
      snd (update_gallery u cwd script_dir w) gallery_file = Some g"
    if "docs w gallery_file = Some g" "\<not> str_in GALLERY_END g" "images \<noteq> []" for g
  proof -
    have "update_file_content gallery_file (generate_gallery_html images) GALLERY_START GALLERY_END
        (docs w) = ([MarkersMissing gallery_file GALLERY_START GALLERY_END], False, docs w)"
      using that(1,2) by (intro update_file_content_no_markers) auto
    then show ?thesis
      using f1 that(1,3) by (simp add: update_gallery_def Let_def gallery_file_def)
  qed
  have gs: "GalleryUpdated (length images) \<in> set (fst (update_gallery u cwd script_dir w)) \<and>
      snd (update_gallery u cwd script_dir w) gallery_file =
         Some (take (nat (str_find g GALLERY_START) + length GALLERY_START) g @
               ''\<newline>'' @ generate_gallery_html images @ ''\<newline>        '' @
               drop (nat (str_find g GALLERY_END)) g)"
    if "docs w gallery_file = Some g" "str_in GALLERY_START g" "str_in GALLERY_END g"
      "images \<noteq> []" for g
  proof -
    have "str_find g GALLERY_START = int (nat (str_find g GALLERY_START))"
      and "str_find g GALLERY_END = int (nat (str_find g GALLERY_END))"
      using that(2,3) by (blast intro: str_in_find_nat)+
    from update_file_content_found [of "docs w" gallery_file g GALLERY_START _ GALLERY_END _
        "generate_gallery_html images", OF that(1) this]
    show ?thesis
      using f1 that(4) by (simp add: update_gallery_def Let_def gallery_file_def)
  qed
  \<comment> \<open>the collections block, failing and succeeding\<close>
  have cf: "CollectionsFailed \<in> set (fst (update_collections u cwd script_dir w)) \<and>
      snd (update_collections u cwd script_dir w) collections_file = Some c"
    if "docs w collections_file = Some c" "\<not> str_in COLLECTIONS_END c" "colls \<noteq> []" for c
  proof -
    have "update_file_content collections_file (generate_collections_html u colls)
        COLLECTIONS_START COLLECTIONS_END (docs w) =
        ([MarkersMissing collections_file COLLECTIONS_START COLLECTIONS_END], False, docs w)"
      using that(1,2) by (intro update_file_content_no_markers) auto
    then show ?thesis
      using f2 that(1,3) by (simp add: update_collections_def Let_def collections_file_def)
  qed
  have cs: "CollectionsUpdated (length colls) \<in> set (fst (update_collections u cwd script_dir w)) \<and>
      snd (update_collections u cwd script_dir w) collections_file =
         Some (take (nat (str_find c COLLECTIONS_START) + length COLLECTIONS_START) c @
               ''\<newline>'' @ generate_collections_html u colls @ ''\<newline>        '' @
               drop (nat (str_find c COLLECTIONS_END)) c)"
    if "docs w collections_file = Some c" "str_in COLLECTIONS_START c" "str_in COLLECTIONS_END c"
      "colls \<noteq> []" for c
  proof -
    have "str_find c COLLECTIONS_START = int (nat (str_find c COLLECTIONS_START))"
      and "str_find c COLLECTIONS_END = int (nat (str_find c COLLECTIONS_END))"
      using that(2,3) by (blast intro: str_in_find_nat)+
    from update_file_content_found [of "docs w" collections_file c COLLECTIONS_START _
        COLLECTIONS_END _ "generate_collections_html u colls", OF that(1) this]
    show ?thesis
      using f2 that(4) by (simp add: update_collections_def Let_def collections_file_def)
  qed
  have A: "\<forall>g c. docs w gallery_file = Some g \<and> \<not> str_in GALLERY_END g \<and> images \<noteq> [] \<and>
           docs w collections_file = Some c \<and> str_in COLLECTIONS_START c \<and>
           str_in COLLECTIONS_END c \<and> colls \<noteq> [] \<longrightarrow>
       GalleryFailed \<in> set out \<and> after gallery_file = Some g \<and>
       CollectionsUpdated (length colls) \<in> set out \<and> last out = Complete \<and>
       after collections_file =
         Some (take (nat (str_find c COLLECTIONS_START) + length COLLECTIONS_START) c @
               ''\<newline>'' @ generate_collections_html u colls @ ''\<newline>        '' @
               drop (nat (str_find c COLLECTIONS_END)) c)"
  proof (intro allI impI, elim conjE)
    fix g c
    assume h: "docs w gallery_file = Some g" "\<not> str_in GALLERY_END g" "images \<noteq> []"
      "docs w collections_file = Some c" "str_in COLLECTIONS_START c"
      "str_in COLLECTIONS_END c" "colls \<noteq> []"
    from gf [OF h(1-3)] cs [OF h(4-7)] l
    show "GalleryFailed \<in> set out \<and> after gallery_file = Some g \<and>
       CollectionsUpdated (length colls) \<in> set out \<and> last out = Complete \<and>
       after collections_file =
         Some (take (nat (str_find c COLLECTIONS_START) + length COLLECTIONS_START) c @
               ''\<newline>'' @ generate_collections_html u colls @ ''\<newline>        '' @
               drop (nat (str_find c COLLECTIONS_END)) c)"
      by (simp add: ag ac) (simp add: out)
  qed
  have B: "\<forall>g c. docs w collections_file = Some c \<and> \<not> str_in COLLECTIONS_END c \<and> colls \<noteq> [] \<and>
           docs w gallery_file = Some g \<and> str_in GALLERY_START g \<and>
           str_in GALLERY_END g \<and> images \<noteq> [] \<longrightarrow>
       CollectionsFailed \<in> set out \<and> after collections_file = Some c \<and>
       GalleryUpdated (length images) \<in> set out \<and> last out = Complete \<and>
       after gallery_file =
         Some (take (nat (str_find g GALLERY_START) + length GALLERY_START) g @
               ''\<newline>'' @ generate_gallery_html images @ ''\<newline>        '' @
               drop (nat (str_find g GALLERY_END)) g)"
  proof (intro allI impI, elim conjE)
    fix g c
    assume h: "docs w collections_file = Some c" "\<not> str_in COLLECTIONS_END c" "colls \<noteq> []"
      "docs w gallery_file = Some g" "str_in GALLERY_START g"
      "str_in GALLERY_END g" "images \<noteq> []"
    from cf [OF h(1-3)] gs [OF h(4-7)] l
    show "CollectionsFailed \<in> set out \<and> after collections_file = Some c \<and>
       GalleryUpdated (length images) \<in> set out \<and> last out = Complete \<and>
       after gallery_file =
         Some (take (nat (str_find g GALLERY_START) + length GALLERY_START) g @
               ''\<newline>'' @ generate_gallery_html images @ ''\<newline>        '' @
               drop (nat (str_find g GALLERY_END)) g)"
      by (simp add: ag ac) (simp add: out)
  qed
  from A B out ag ac show ?thesis by blast
qed

theorem pipelines_are_independent_witness:
  "docs example_broken_gallery ([''site''] @ Path GALLERY_HTML) = Some ''<!-- GALLERY_IMAGES_START -->old'' \<and>
   \<not> str_in GALLERY_END ''<!-- GALLERY_IMAGES_START -->old'' \<and>
   snd (find_all_images ascii_case [''site''] ([''site''] @ Path ART_FOLDER) (art example_broken_gallery)) \<noteq> [] \<and>
   docs example_broken_gallery ([''site''] @ Path COLLECTIONS_HTML) =
     Some ''<!-- COLLECTIONS_START -->old<!-- COLLECTIONS_END -->'' \<and>
   str_in COLLECTIONS_START ''<!-- COLLECTIONS_START -->old<!-- COLLECTIONS_END -->'' \<and>
   str_in COLLECTIONS_END ''<!-- COLLECTIONS_START -->old<!-- COLLECTIONS_END -->'' \<and>
   snd (find_collections ascii_case [''site''] ([''site''] @ Path ART_FOLDER) (art example_broken_gallery)) \<noteq> [] \<and>
   GalleryFailed \<in> set (fst (main ascii_case [''site''] [''site''] example_broken_gallery)) \<and>
   docs (snd (main ascii_case [''site''] [''site''] example_broken_gallery)) ([''site''] @ Path GALLERY_HTML) =
     Some ''<!-- GALLERY_IMAGES_START -->old'' \<and>
   CollectionsUpdated
     (length (snd (find_collections ascii_case [''site''] ([''site''] @ Path ART_FOLDER) (art example_broken_gallery))))
     \<in> set (fst (main ascii_case [''site''] [''site''] example_broken_gallery)) \<and>
   last (fst (main ascii_case [''site''] [''site''] example_broken_gallery)) = Complete"
proof -
  have h1: "docs example_broken_gallery ([''site''] @ Path GALLERY_HTML) =
      Some ''<!-- GALLERY_IMAGES_START -->old''"
    by (simp add: example_broken_gallery_def Path_constants)
  have h2: "\<not> str_in GALLERY_END ''<!-- GALLERY_IMAGES_START -->old''"
    by code_simp
  have h3: "snd (find_all_images ascii_case [''site''] ([''site''] @ Path ART_FOLDER)
      (art example_broken_gallery)) \<noteq> []"
    by code_simp
  have h4: "docs example_broken_gallery ([''site''] @ Path COLLECTIONS_HTML) =
     Some ''<!-- COLLECTIONS_START -->old<!-- COLLECTIONS_END -->''"
    by (simp add: example_broken_gallery_def Path_constants)
  have h5: "str_in COLLECTIONS_START ''<!-- COLLECTIONS_START -->old<!-- COLLECTIONS_END -->''"
    by code_simp
  have h6: "str_in COLLECTIONS_END ''<!-- COLLECTIONS_START -->old<!-- COLLECTIONS_END -->''"
    by code_simp
  have h7: "snd (find_collections ascii_case [''site''] ([''site''] @ Path ART_FOLDER)
      (art example_broken_gallery)) \<noteq> []"
    by code_simp
  note t = pipelines_are_independent [where u = ascii_case and w = example_broken_gallery
      and cwd = "[''site'']" and script_dir = "[''site'']",
      THEN conjunct1, rule_format, of "''<!-- GALLERY_IMAGES_START -->old''"
      "''<!-- COLLECTIONS_START -->old<!-- COLLECTIONS_END -->''"]
  have "GalleryFailed \<in> set (fst (main ascii_case [''site''] [''site''] example_broken_gallery)) \<and>
   docs (snd (main ascii_case [''site''] [''site''] example_broken_gallery)) ([''site''] @ Path GALLERY_HTML) =
     Some ''<!-- GALLERY_IMAGES_START -->old'' \<and>
   CollectionsUpdated
     (length (snd (find_collections ascii_case [''site''] ([''site''] @ Path ART_FOLDER) (art example_broken_gallery))))
     \<in> set (fst (main ascii_case [''site''] [''site''] example_broken_gallery)) \<and>
   last (fst (main ascii_case [''site''] [''site''] example_broken_gallery)) = Complete"
    using t h1 h2 h3 h4 h5 h6 h7 by blast
  with h1 h2 h3 h4 h5 h6 h7 show ?thesis by blast
qed

subsection \<open>Labels and headings\<close>

lemma title_loop_positions:
  "r = drop i s \<Longrightarrow> i \<le> length s \<Longrightarrow>
   title_loop u s r i p =
     concat (map (\<lambda>k. if (if k = i then p else cased u (s ! (k - 1)))
                        then lower_at u s k else to_title u (s ! k))
               [i..<length s])"
proof (induction r arbitrary: i p)
  case Nil
  then have "i = length s" by simp
  then show ?case by simp
next
  case (Cons c cs)
  from Cons.prems have lt: "i < length s" by (cases "i < length s") auto
  from Cons.prems(1) lt have c: "s ! i = c" and cs: "cs = drop (Suc i) s"
    by (simp_all add: Cons_nth_drop_Suc [symmetric])
  have u: "[i..<length s] = i # [Suc i..<length s]"
    using lt by (rule upt_conv_Cons)
  have ih: "title_loop u s cs (Suc i) (cased u c) =
     concat (map (\<lambda>k. if (if k = Suc i then cased u c else cased u (s ! (k - 1)))
                        then lower_at u s k else to_title u (s ! k))
               [Suc i..<length s])"
    using cs lt by (intro Cons.IH) simp_all
  have m: "map (\<lambda>k. if (if k = Suc i then cased u c else cased u (s ! (k - 1)))
                        then lower_at u s k else to_title u (s ! k)) [Suc i..<length s]
      = map (\<lambda>k. if (if k = i then p else cased u (s ! (k - 1)))
                        then lower_at u s k else to_title u (s ! k)) [Suc i..<length s]"
    using c by (intro map_cong) auto
  show ?case
    by (simp only: title_loop.simps ih m u list.map concat.simps c if_True refl)
qed

lemma title_loop_capitalize_words:
  assumes "uncased_fixed u"
  shows "title_loop u s s 0 False = capitalize_words u s"
proof -
  have "title_loop u s s 0 False =
     concat (map (\<lambda>k. if (if k = 0 then False else cased u (s ! (k - 1)))
                        then lower_at u s k else to_title u (s ! k))
               [0..<length s])"
    by (rule title_loop_positions) simp_all
  also have "map (\<lambda>k. if (if k = 0 then False else cased u (s ! (k - 1)))
                        then lower_at u s k else to_title u (s ! k)) [0..<length s]
      = map (\<lambda>i. if cased u (s ! i)
                       then (if 0 < i \<and> cased u (s ! (i - 1)) then lower_at u s i
                             else to_title u (s ! i))
                       else [s ! i]) [0..<length s]"
  proof (intro map_cong refl)
    fix k assume "k \<in> set [0..<length s]"
    then have k: "k < length s" by simp
    show "(if (if k = 0 then False else cased u (s ! (k - 1)))
             then lower_at u s k else to_title u (s ! k)) =
          (if cased u (s ! k)
             then (if 0 < k \<and> cased u (s ! (k - 1)) then lower_at u s k
                   else to_title u (s ! k))
             else [s ! k])"
    proof (cases "cased u (s ! k)")
      case True
      then show ?thesis by auto
    next
      case False
      with assms k have "to_title u (s ! k) = [s ! k]" "lower_at u s k = [s ! k]"
        unfolding uncased_fixed_def by blast+
      with False show ?thesis by simp
    qed
  qed
  finally show ?thesis by (simp add: capitalize_words_def)
qed

lemma title_capitalize_words:
  "uncased_fixed u \<Longrightarrow> title u s = encode u (capitalize_words u (decode u s))"
  by (simp add: title_def title_loop_capitalize_words)

lemma uncased_fixed_ascii: "uncased_fixed ascii_case"
  by (auto simp: uncased_fixed_def ascii_case_def)





subsection \<open>The identifiers of a collection's section\<close>

lemma str_in_self: "str_in sub (sub @ b)"
proof (cases "sub @ b")
  case Nil
  then show ?thesis by simp
next
  case (Cons c cs)
  have "startswith (sub @ b) sub" by simp
  with Cons show ?thesis by simp
qed

lemma str_in_mid: "str_in sub (a @ sub @ b)"
  by (induction a) (simp_all add: str_in_self)

lemma join_contains: "s \<in> set xs \<Longrightarrow> \<exists>a b. join sep xs = a @ s @ b"
proof (induction sep xs rule: join.induct)
  case (1 sep)
  then show ?case by simp
next
  case (2 sep x)
  then have "join sep [x] = [] @ s @ []" by simp
  then show ?case by blast
next
  case (3 sep x y ys)
  show ?case
  proof (cases "s = x")
    case True
    then have "join sep (x # y # ys) = [] @ s @ (sep @ join sep (y # ys))" by simp
    then show ?thesis by blast
  next
    case False
    with "3.prems" have "s \<in> set (y # ys)" by simp
    from "3.IH" [OF this] obtain a b where "join sep (y # ys) = a @ s @ b" by blast
    then have "join sep (x # y # ys) = (x @ sep @ a) @ s @ b" by simp
    then show ?thesis by blast
  qed
qed

lemma str_in_join: "s \<in> set xs \<Longrightarrow> str_in s (join sep xs)"
proof -
  assume "s \<in> set xs"
  from join_contains [OF this] obtain a b where "join sep xs = a @ s @ b" by blast
  then show ?thesis by (simp add: str_in_mid)
qed

lemma html_sections_map:
  "html_sections u collections =
   map (\<lambda>(n, images).
          section_html n (title u (replace (replace n (CHR ''_'') (CHR '' '')) (CHR ''-'') (CHR '' '')))
            (map card_html images))
     (filter (\<lambda>(n, images). images \<noteq> []) collections)"
  by (induction u collections rule: html_sections.induct) (simp_all add: Let_def)

lemma section_html_part0:
  \<open>section_html n h cards =
     (''        <!-- Collection: '' @ n @ '' -->\<newline>'' @ ''        '') @
     (''<section class="collection-section" data-collection="'' @ n @ ''">'') @
     (''\<newline>'' @ ''            <div class="collection-header">\<newline>'' @ ''                '' @ ''<h2>'' @ h @ ''</h2>'' @ ''\<newline>'' @ ''            </div>\<newline>'' @ ''            <div class="collection-carousel-container">\<newline>'' @ ''                '' @ ''<button class="carousel-btn prev" data-carousel="'' @ n @ ''">'' @ PREV_GLYPH @ ''</button>\<newline>'' @ ''                '' @ ''<div class="collection-carousel" id="carousel-'' @ n @ ''">'' @ ''\<newline>'' @ ''                    <div class="carousel-track">\<newline>'' @ join ''\<newline>'' cards @ ''\<newline>'' @ ''                    </div>\<newline>'' @ ''                </div>\<newline>'' @ ''                '' @ ''<button class="carousel-btn next" data-carousel="'' @ n @ ''">'' @ NEXT_GLYPH @ ''</button>\<newline>'' @ ''            </div>\<newline>'' @ ''        </section>'')\<close>
  by (simp add: section_html_def)

lemma section_html_part1:
  \<open>section_html n h cards =
     (''        <!-- Collection: '' @ n @ '' -->\<newline>'' @ ''        '' @ ''<section class="collection-section" data-collection="'' @ n @ ''">'' @ ''\<newline>'' @ ''            <div class="collection-header">\<newline>'' @ ''                '') @
     (''<h2>'' @ h @ ''</h2>'') @
     (''\<newline>'' @ ''            </div>\<newline>'' @ ''            <div class="collection-carousel-container">\<newline>'' @ ''                '' @ ''<button class="carousel-btn prev" data-carousel="'' @ n @ ''">'' @ PREV_GLYPH @ ''</button>\<newline>'' @ ''                '' @ ''<div class="collection-carousel" id="carousel-'' @ n @ ''">'' @ ''\<newline>'' @ ''                    <div class="carousel-track">\<newline>'' @ join ''\<newline>'' cards @ ''\<newline>'' @ ''                    </div>\<newline>'' @ ''                </div>\<newline>'' @ ''                '' @ ''<button class="carousel-btn next" data-carousel="'' @ n @ ''">'' @ NEXT_GLYPH @ ''</button>\<newline>'' @ ''            </div>\<newline>'' @ ''        </section>'')\<close>
  by (simp add: section_html_def)

lemma section_html_part2:
  \<open>section_html n h cards =
     (''        <!-- Collection: '' @ n @ '' -->\<newline>'' @ ''        '' @ ''<section class="collection-section" data-collection="'' @ n @ ''">'' @ ''\<newline>'' @ ''            <div class="collection-header">\<newline>'' @ ''                '' @ ''<h2>'' @ h @ ''</h2>'' @ ''\<newline>'' @ ''            </div>\<newline>'' @ ''            <div class="collection-carousel-container">\<newline>'' @ ''                '') @
     (''<button class="carousel-btn prev" data-carousel="'' @ n @ ''">'') @
     (PREV_GLYPH @ ''</button>\<newline>'' @ ''                '' @ ''<div class="collection-carousel" id="carousel-'' @ n @ ''">'' @ ''\<newline>'' @ ''                    <div class="carousel-track">\<newline>'' @ join ''\<newline>'' cards @ ''\<newline>'' @ ''                    </div>\<newline>'' @ ''                </div>\<newline>'' @ ''                '' @ ''<button class="carousel-btn next" data-carousel="'' @ n @ ''">'' @ NEXT_GLYPH @ ''</button>\<newline>'' @ ''            </div>\<newline>'' @ ''        </section>'')\<close>
  by (simp add: section_html_def)

lemma section_html_part3:
  \<open>section_html n h cards =
     (''        <!-- Collection: '' @ n @ '' -->\<newline>'' @ ''        '' @ ''<section class="collection-section" data-collection="'' @ n @ ''">'' @ ''\<newline>'' @ ''            <div class="collection-header">\<newline>'' @ ''                '' @ ''<h2>'' @ h @ ''</h2>'' @ ''\<newline>'' @ ''            </div>\<newline>'' @ ''            <div class="collection-carousel-container">\<newline>'' @ ''                '' @ ''<button class="carousel-btn prev" data-carousel="'' @ n @ ''">'' @ PREV_GLYPH @ ''</button>\<newline>'' @ ''                '') @
     (''<div class="collection-carousel" id="carousel-'' @ n @ ''">'') @
     (''\<newline>'' @ ''                    <div class="carousel-track">\<newline>'' @ join ''\<newline>'' cards @ ''\<newline>'' @ ''                    </div>\<newline>'' @ ''                </div>\<newline>'' @ ''                '' @ ''<button class="carousel-btn next" data-carousel="'' @ n @ ''">'' @ NEXT_GLYPH @ ''</button>\<newline>'' @ ''            </div>\<newline>'' @ ''        </section>'')\<close>
  by (simp add: section_html_def)

lemma section_html_part4:
  \<open>section_html n h cards =
     (''        <!-- Collection: '' @ n @ '' -->\<newline>'' @ ''        '' @ ''<section class="collection-section" data-collection="'' @ n @ ''">'' @ ''\<newline>'' @ ''            <div class="collection-header">\<newline>'' @ ''                '' @ ''<h2>'' @ h @ ''</h2>'' @ ''\<newline>'' @ ''            </div>\<newline>'' @ ''            <div class="collection-carousel-container">\<newline>'' @ ''                '' @ ''<button class="carousel-btn prev" data-carousel="'' @ n @ ''">'' @ PREV_GLYPH @ ''</button>\<newline>'' @ ''                '' @ ''<div class="collection-carousel" id="carousel-'' @ n @ ''">'' @ ''\<newline>'' @ ''                    <div class="carousel-track">\<newline>'' @ join ''\<newline>'' cards @ ''\<newline>'' @ ''                    </div>\<newline>'' @ ''                </div>\<newline>'' @ ''                '') @
     (''<button class="carousel-btn next" data-carousel="'' @ n @ ''">'') @
     (NEXT_GLYPH @ ''</button>\<newline>'' @ ''            </div>\<newline>'' @ ''        </section>'')\<close>
  by (simp add: section_html_def)

lemma str_in_within: "out = a @ sec @ b \<Longrightarrow> sec = p @ piece @ q \<Longrightarrow> str_in piece out"
proof -
  assume "out = a @ sec @ b" and "sec = p @ piece @ q"
  then have "out = (a @ p) @ piece @ (q @ b)" by simp
  then show ?thesis by (simp only: str_in_mid)
qed

text \<open>
  Claim C8. With case data in which a code point that is not cased has no case mapping
  (\<open>uncased_fixed\<close>), for every collection with at least one image the grouped rendering holds the
  section of that collection, and the output holds: the section tag with the raw name
  as \<open>data-collection\<close>, the heading with the name in display form (underscores and
  hyphens as spaces, words capitalized), the previous and the next button each with the
  raw name as \<open>data-carousel\<close>, and the track with the identifier \<open>carousel-\<close> followed
  by the raw name. For \<open>my_collection-1\<close> the heading is "My Collection 1".
\<close>

theorem collection_identifiers:
  assumes "(n, images) \<in> set collections" and "images \<noteq> []" and "uncased_fixed u"
  shows \<open>section_html n (display_heading u n) (map card_html images) \<in> set (html_sections u collections)
    \<and> str_in (''<section class="collection-section" data-collection="'' @ n @ ''">'')
         (generate_collections_html u collections)
    \<and> str_in (''<h2>'' @ display_heading u n @ ''</h2>'')
         (generate_collections_html u collections)
    \<and> str_in (''<button class="carousel-btn prev" data-carousel="'' @ n @ ''">'')
         (generate_collections_html u collections)
    \<and> str_in (''<div class="collection-carousel" id="carousel-'' @ n @ ''">'')
         (generate_collections_html u collections)
    \<and> str_in (''<button class="carousel-btn next" data-carousel="'' @ n @ ''">'')
         (generate_collections_html u collections)\<close>
proof -
  let ?sec = "section_html n (display_heading u n) (map card_html images)"
  have m: "?sec \<in> set (html_sections u collections)"
    using assms(1,2)
    by (force simp: html_sections_map display_heading_def title_capitalize_words [OF assms(3)])
  from join_contains [OF m, of "''\<newline>''"] obtain a b
    where g: "generate_collections_html u collections = a @ ?sec @ b"
    unfolding generate_collections_html_def by blast
  show ?thesis
    apply (intro conjI)
         apply (rule m)
        apply (rule str_in_within [OF g section_html_part0])
       apply (rule str_in_within [OF g section_html_part1])
      apply (rule str_in_within [OF g section_html_part2])
     apply (rule str_in_within [OF g section_html_part3])
    apply (rule str_in_within [OF g section_html_part4])
    done
qed

theorem collection_identifiers_witness:
  \<open>uncased_fixed ascii_case
   \<and> display_heading ascii_case ''my_collection-1'' = ''My Collection 1''
   \<and> str_in ''<section class="collection-section" data-collection="my_collection-1">''
         (generate_collections_html ascii_case example_collections)
   \<and> str_in ''<h2>My Collection 1</h2>'' (generate_collections_html ascii_case example_collections)
   \<and> str_in ''<button class="carousel-btn prev" data-carousel="my_collection-1">''
         (generate_collections_html ascii_case example_collections)
   \<and> str_in ''<div class="collection-carousel" id="carousel-my_collection-1">''
         (generate_collections_html ascii_case example_collections)
   \<and> str_in ''<button class="carousel-btn next" data-carousel="my_collection-1">''
         (generate_collections_html ascii_case example_collections)\<close>
proof -
  have h: "display_heading ascii_case ''my_collection-1'' = ''My Collection 1''" by code_simp
  have i: "(''my_collection-1'', [(''../art/my_collection-1/a.png'', ''A'')]) \<in> set example_collections"
    by (simp add: example_collections_def)
  have j: "[(''../art/my_collection-1/a.png'', ''A'')] \<noteq> []" by simp
  from collection_identifiers [OF i j uncased_fixed_ascii] h uncased_fixed_ascii
  show ?thesis by simp
qed

subsection \<open>The order of a scan\<close>












lemma name_snoc [simp]: "name (p @ [n]) = n"
  by (simp add: name_def)





subsection \<open>The locator\<close>

lemma commonprefix_append: "commonprefix (p @ xs) (p @ ys) = p @ commonprefix xs ys"
  by (induction p) auto

lemma locator_from_script_dir:
  "relpath script_dir (script_dir @ Path ART_FOLDER @ rel) (parent (Path GALLERY_HTML)) =
     join ''/'' (''..'' # ''art'' # rel)"
  "relpath script_dir (script_dir @ Path ART_FOLDER @ rel) (parent (Path COLLECTIONS_HTML)) =
     join ''/'' (''..'' # ''art'' # rel)"
  by (simp_all add: relpath_def abspath_def Path_constants parent_def commonprefix_append Let_def)

text \<open>
  Claim C5. The locator is computed by \<open>relpath\<close> against \<open>pages\<close>, a relative path that
  is resolved against the working directory, while the document lies in \<open>pages\<close> below
  the script's directory. Run from the script's directory the two agree
  (\<open>locator_from_script_dir\<close>). Run from \<open>/site/pages\<close> with the script in \<open>/site\<close>, the
  scanner and the grouper emit \<open>../../art/...\<close> where the path relative to the
  document's directory is \<open>../art/...\<close>, and that is what \<open>main\<close> writes into the page.
\<close>

theorem locator_follows_working_directory:
  \<open>snd (find_all_images ascii_case [''site'', ''pages''] ([''site''] @ Path ART_FOLDER) (Some [(''a.png'', File)])) =
     [(''../../art/a.png'', ''A'')]
   \<and> snd (find_collections ascii_case [''site'', ''pages''] ([''site''] @ Path ART_FOLDER)
          (Some [(''c'', Dir [(''a.png'', File)])])) =
     [(''c'', [(''../../art/c/a.png'', ''A'')])]
   \<and> relpath [''site''] [''site'', ''art'', ''a.png''] (parent (Path GALLERY_HTML)) = ''../art/a.png''
   \<and> docs (snd (main ascii_case [''site'', ''pages''] [''site''] example_one_image))
        ([''site''] @ Path GALLERY_HTML) =
     Some (''<!-- GALLERY_IMAGES_START -->\<newline>'' @
           ''        <div class="gallery-grid-item">\<newline>'' @
           ''            <img src="../../art/a.png" alt="A">\<newline>'' @
           ''        </div>\<newline>'' @
           ''        <!-- GALLERY_IMAGES_END -->'')\<close>
  by (intro conjI; code_simp)

subsection \<open>Running the update twice\<close>

lemma startswith_nth: "startswith t e \<Longrightarrow> m < length e \<Longrightarrow> t ! m = e ! m"
proof -
  assume a: "startswith t e" and m: "m < length e"
  from a have "take (length e) t = e" by (simp add: startswith_def)
  then have "e ! m = take (length e) t ! m" by simp
  also have "\<dots> = t ! m" using m by simp
  finally show ?thesis by simp
qed

lemma startswith_in_prefix:
  "k + length sub \<le> length p \<Longrightarrow> startswith (drop k (p @ r)) sub = startswith (drop k p) sub"
  by (simp add: startswith_def)

lemma startswith_in_take:
  "k + length sub \<le> m \<Longrightarrow> startswith (drop k (take m c)) sub = startswith (drop k c) sub"
  by (simp add: startswith_def drop_take min_def)

lemma str_in_Nil [simp]: "str_in [] t"
  by (cases t) simp_all

lemma str_in_of_occurrence: "startswith (drop k t) e \<Longrightarrow> str_in e t"
proof -
  assume "startswith (drop k t) e"
  then have "drop k t = e @ drop (k + length e) t" by (rule drop_occurrence)
  then have "t = take k t @ e @ drop (k + length e) t"
    by (metis append_take_drop_id)
  then show ?thesis by (metis str_in_mid)
qed

text \<open>An occurrence of \<open>e\<close> in \<open>u @ c # v\<close>, where \<open>c\<close> is not a character of \<open>e\<close>, lies in \<open>u\<close> or in \<open>v\<close>.\<close>

lemma occurrence_avoids_char:
  assumes "c \<notin> set e" and "startswith (drop k (u @ c # v)) e"
  shows "(k + length e \<le> length u \<and> startswith (drop k u) e) \<or>
         (length u < k \<and> startswith (drop (k - length u - 1) v) e)"
proof -
  consider "k + length e \<le> length u" | "length u < k" | "k \<le> length u" "length u < k + length e"
    by linarith
  then show ?thesis
  proof cases
    case 1
    with assms(2) startswith_in_prefix [of k e u "c # v"] show ?thesis by blast
  next
    case 2
    then have "drop k (u @ c # v) = drop (k - length u - 1) v"
      by (simp add: drop_Cons')
    with assms(2) 2 show ?thesis by simp
  next
    case 3
    let ?m = "length u - k"
    have m: "?m < length e" using 3 by linarith
    have "drop k (u @ c # v) ! ?m = c" using 3 by (simp add: nth_append)
    with startswith_nth [OF assms(2) m] have "e ! ?m = c" by simp
    with m have "c \<in> set e" by (metis nth_mem)
    with assms(1) show ?thesis by simp
  qed
qed

lemma drop_past: "length a = n \<Longrightarrow> drop n (a @ t) = t"
  by simp

lemma spaces_nth: "k < 8 \<Longrightarrow> (''        '' @ t) ! k = CHR '' ''"
proof -
  have "''        '' = replicate 8 (CHR '' '')" by (simp add: numeral_eq_Suc)
  then show "k < 8 \<Longrightarrow> (''        '' @ t) ! k = CHR '' ''"
    by (simp only: nth_append length_replicate nth_replicate if_True)
qed

text \<open>
  The text after one update, \<open>p @ newline # x @ newline # spaces @ t\<close>: where the start
  marker and the end marker are first found in it.
\<close>

lemma find_start_after_update:
  assumes "str_find content s = int i"
  shows "str_find (take (i + length s) content @ r) s = int i"
proof (rule str_find_eqI)
  have b: "i + length s \<le> length content" using assms by (rule str_find_bound)
  have p: "take (i + length s) content = take i content @ s"
    using assms by (intro take_occurrence str_find_at)
  have "drop i (take (i + length s) content @ r) = s @ r"
    using b by (simp add: p)
  then show "startswith (drop i (take (i + length s) content @ r)) s" by simp
  show "i \<le> length (take (i + length s) content @ r)" using b by simp
next
  fix k assume k: "k < i"
  have b: "i + length s \<le> length content" using assms by (rule str_find_bound)
  have l: "k + length s \<le> length (take (i + length s) content)" using k b by simp
  have "startswith (drop k (take (i + length s) content @ r)) s =
        startswith (drop k (take (i + length s) content)) s"
    using l by (rule startswith_in_prefix)
  also have "\<dots> = startswith (drop k content) s"
    using k by (intro startswith_in_take) simp
  also have "\<dots> = False" using str_find_first [OF assms k] by simp
  finally show "\<not> startswith (drop k (take (i + length s) content @ r)) s" by simp
qed

lemma find_end_after_update:
  assumes e: "str_find content e = int j"
    and le: "m \<le> j" "m \<le> length content"
    and x: "\<not> str_in e x"
    and nl: "CHR ''\<newline>'' \<notin> set e"
    and sp: "\<not> startswith e '' ''"
  shows "str_find (take m content @ CHR ''\<newline>'' # x @ CHR ''\<newline>'' # ''        '' @ drop j content) e
         = int (m + 1 + length x + 1 + 8)"
proof (rule str_find_eqI)
  let ?p = "take m content" and ?t = "drop j content"
  let ?v = "x @ CHR ''\<newline>'' # ''        '' @ ?t"
  let ?c = "?p @ CHR ''\<newline>'' # ?v"
  have lp: "length ?p = m" using le(2) by simp
  have "drop (m + 1 + length x + 1 + 8)
      ((?p @ CHR ''\<newline>'' # x @ CHR ''\<newline>'' # ''        '') @ ?t) = ?t"
    using le(2) by (intro drop_past) simp
  then have "drop (m + 1 + length x + 1 + 8) ?c = ?t" by simp
  moreover have "startswith ?t e" using e by (rule str_find_at)
  ultimately show "startswith (drop (m + 1 + length x + 1 + 8) ?c) e" by simp
  show "m + 1 + length x + 1 + 8 \<le> length ?c" using lp by simp
next
  let ?p = "take m content" and ?t = "drop j content"
  let ?v = "x @ CHR ''\<newline>'' # ''        '' @ ?t"
  let ?c = "?p @ CHR ''\<newline>'' # ?v"
  fix k assume k: "k < m + 1 + length x + 1 + 8"
  have lp: "length ?p = m" using le(2) by simp
  have ne: "e \<noteq> []" using x by auto
  show "\<not> startswith (drop k ?c) e"
  proof
    assume occ: "startswith (drop k ?c) e"
    from occurrence_avoids_char [OF nl occ]
    show False
    proof (elim disjE conjE)
      assume a: "k + length e \<le> length ?p" and b: "startswith (drop k ?p) e"
      from a lp have "k + length e \<le> m" by simp
      then have "startswith (drop k ?p) e = startswith (drop k content) e"
        by (rule startswith_in_take)
      with b have "startswith (drop k content) e" by simp
      moreover have "k < j" using a lp le(1) ne by (cases e) auto
      ultimately show False using str_find_first [OF e] by blast
    next
      assume a: "length ?p < k" and b: "startswith (drop (k - length ?p - 1) ?v) e"
      let ?k1 = "k - length ?p - 1"
      have b': "startswith (drop ?k1 (x @ CHR ''\<newline>'' # (''        '' @ ?t))) e"
        using b by simp
      from occurrence_avoids_char [OF nl b']
      show False
      proof (elim disjE conjE)
        assume "startswith (drop ?k1 x) e"
        then have "str_in e x" by (rule str_in_of_occurrence)
        with x show False by simp
      next
        assume c: "length x < ?k1"
          and d: "startswith (drop (?k1 - length x - 1) (''        '' @ ?t)) e"
        let ?k2 = "?k1 - length x - 1"
        have k2: "?k2 < 8" using k a c lp by linarith
        have len: "?k2 < length (''        '' @ ?t)" using k2 by simp
        from ne have z: "0 < length e" by simp
        from startswith_nth [OF d z] have "e ! 0 = drop ?k2 (''        '' @ ?t) ! 0" by simp
        also have "\<dots> = (''        '' @ ?t) ! ?k2"
          using len by (simp only: nth_drop) simp
        also have "\<dots> = CHR '' ''" using k2 by (rule spaces_nth)
        finally have "e ! 0 = CHR '' ''" .
        with ne have "startswith e '' ''" by (cases e) (simp_all add: startswith_def)
        with sp show False by simp
      qed
    qed
  qed
qed

text \<open>
  Claim C6, as the code has it. Let the document's text hold both markers, the first
  occurrence of the start marker ending before the first occurrence of the end marker
  begins, and let the content not hold the end marker. If moreover the end marker holds
  no newline and does not begin with a space (as both configured end markers do), then
  the update succeeds and a second update with the same content succeeds and leaves
  the store as the first left it. What is written to the document depends only on the
  document's text and the arguments.
\<close>

theorem update_is_idempotent:
  assumes "d fp = Some content"
    and "str_find content s = int i" and "str_find content e = int j"
    and "i + length s \<le> j"
    and "\<not> str_in e x"
    and "CHR ''\<newline>'' \<notin> set e" and "\<not> startswith e '' ''"
  shows "fst (snd (update_file_content fp x s e d)) \<and>
     update_file_content fp x s e (snd (snd (update_file_content fp x s e d))) =
       ([], True, snd (snd (update_file_content fp x s e d))) \<and>
     (\<forall>d'. d' fp = d fp \<longrightarrow>
        snd (snd (update_file_content fp x s e d')) fp =
        snd (snd (update_file_content fp x s e d)) fp)"
proof -
  let ?p = "take (i + length s) content" and ?t = "drop j content"
  let ?c = "?p @ ''\<newline>'' @ x @ ''\<newline>        '' @ ?t"
  have b: "i + length s \<le> length content" using assms(2) by (rule str_find_bound)
  have lp: "length ?p = i + length s" using b by simp
  have u: "update_file_content fp x s e d = ([], True, d(fp \<mapsto> ?c))"
    using assms(1-3) by (rule update_file_content_found)
  have fs: "str_find ?c s = int i"
    using assms(2) by (rule find_start_after_update)
  have "str_find (?p @ CHR ''\<newline>'' # x @ CHR ''\<newline>'' # ''        '' @ ?t) e =
      int (i + length s + 1 + length x + 1 + 8)"
    using assms(3,4) b assms(5-7) by (rule find_end_after_update)
  then have fe: "str_find ?c e = int (i + length s + 1 + length x + 1 + 8)" by simp
  have "drop (i + length s + 1 + length x + 1 + 8)
      ((?p @ CHR ''\<newline>'' # x @ CHR ''\<newline>'' # ''        '') @ ?t) = ?t"
    using b by (intro drop_past) simp
  then have dr: "drop (i + length s + 1 + length x + 1 + 8) ?c = ?t" by simp
  have tk: "take (i + length s) ?c = ?p" using lp by simp
  have "(d(fp \<mapsto> ?c)) fp = Some ?c" by simp
  from update_file_content_found [of "d(fp \<mapsto> ?c)" fp ?c s i e
      "i + length s + 1 + length x + 1 + 8" x, OF this fs fe]
  have "update_file_content fp x s e (d(fp \<mapsto> ?c)) = ([], True, d(fp \<mapsto> ?c))"
    by (simp only: dr tk fun_upd_upd)
  moreover have "snd (snd (update_file_content fp x s e d')) fp =
        snd (snd (update_file_content fp x s e d)) fp" if "d' fp = d fp" for d'
    using update_file_content_local [of d' fp d x s e, OF that] by simp
  ultimately show ?thesis using u by simp
qed

theorem update_is_idempotent_witness:
  "str_find example_gallery_doc GALLERY_START = int 0 \<and>
   str_find example_gallery_doc GALLERY_END = int 32 \<and>
   0 + length GALLERY_START \<le> (32::nat) \<and>
   \<not> str_in GALLERY_END (generate_gallery_html [(''../art/banner.png'', ''Banner'')]) \<and>
   CHR ''\<newline>'' \<notin> set GALLERY_END \<and> \<not> startswith GALLERY_END '' '' \<and>
   update_file_content [''g.html''] (generate_gallery_html [(''../art/banner.png'', ''Banner'')])
     GALLERY_START GALLERY_END
     (snd (snd (update_file_content [''g.html'']
        (generate_gallery_html [(''../art/banner.png'', ''Banner'')])
        GALLERY_START GALLERY_END [[''g.html''] \<mapsto> example_gallery_doc]))) =
   ([], True,
    snd (snd (update_file_content [''g.html'']
        (generate_gallery_html [(''../art/banner.png'', ''Banner'')])
        GALLERY_START GALLERY_END [[''g.html''] \<mapsto> example_gallery_doc])))"
proof -
  have h1: "[[''g.html''] \<mapsto> example_gallery_doc] [''g.html''] = Some example_gallery_doc"
    by simp
  have h2: "str_find example_gallery_doc GALLERY_START = int 0" by code_simp
  have h3: "str_find example_gallery_doc GALLERY_END = int 32" by code_simp
  have h4: "0 + length GALLERY_START \<le> (32::nat)" by code_simp
  have h5: "\<not> str_in GALLERY_END (generate_gallery_html [(''../art/banner.png'', ''Banner'')])"
    by code_simp
  have h6: "CHR ''\<newline>'' \<notin> set GALLERY_END" by code_simp
  have h7: "\<not> startswith GALLERY_END '' ''" by code_simp
  from update_is_idempotent [of "[[''g.html''] \<mapsto> example_gallery_doc]" "[''g.html'']"
      example_gallery_doc GALLERY_START 0 GALLERY_END 32
      "generate_gallery_html [(''../art/banner.png'', ''Banner'')]",
      OF h1 h2 h3 h4 h5 h6 h7] h2 h3 h4 h5 h6 h7
  show ?thesis by blast
qed

text \<open>
  Without the condition on the end marker the second run can differ. With the end marker
  a single newline, the newline that the first run writes before the content is the
  first occurrence of the end marker in the second run, and the block is written twice.
\<close>

theorem update_is_idempotent_counterexample:
  "str_find ''<s>old\<newline>rest'' ''<s>'' = 0 \<and>
   str_find ''<s>old\<newline>rest'' ''\<newline>'' = 6 \<and>
   \<not> str_in ''<s>'' ''x'' \<and> \<not> str_in ''\<newline>'' ''x'' \<and>
   snd (snd (update_file_content [''g.html''] ''x'' ''<s>'' ''\<newline>''
      [[''g.html''] \<mapsto> ''<s>old\<newline>rest''])) [''g.html'']
     = Some ''<s>\<newline>x\<newline>        \<newline>rest'' \<and>
   snd (snd (update_file_content [''g.html''] ''x'' ''<s>'' ''\<newline>''
      (snd (snd (update_file_content [''g.html''] ''x'' ''<s>'' ''\<newline>''
         [[''g.html''] \<mapsto> ''<s>old\<newline>rest'']))))) [''g.html'']
     = Some ''<s>\<newline>x\<newline>        \<newline>x\<newline>        \<newline>rest''"
  by (intro conjI; code_simp)

end
